theory Spec2Isabelle
  imports Complex_Main "HOL-Library.Sublist" "HOL-Library.List_Lexorder" "HOL-Library.Char_ord"
begin

section \<open>Strings as the normalizer uses them\<close>

text \<open>
  The model follows \<^verbatim>\<open>scripts/normalize_data.py\<close> and the tables of
  \<^verbatim>\<open>scripts/config.py\<close>. A Python \<^verbatim>\<open>str\<close> is a \<^typ>\<open>string\<close>; the
  character classes below are those of Python on ASCII text (letters, digits, the white
  space of \<^verbatim>\<open>str.strip\<close> and of the pattern \<^verbatim>\<open>\s\<close>). Characters above 127 are
  left as they are and belong to no class.
\<close>

definition upper_letters :: string where
  "upper_letters = ''ABCDEFGHIJKLMNOPQRSTUVWXYZ''"

definition lower_letters :: string where
  "lower_letters = ''abcdefghijklmnopqrstuvwxyz''"

definition digit_chars :: string where
  "digit_chars = ''0123456789''"

definition is_space :: "char \<Rightarrow> bool" where
  "is_space c \<longleftrightarrow>
     c \<in> set [CHR 0x09, CHR 0x0A, CHR 0x0B, CHR 0x0C, CHR 0x0D,
               CHR 0x1C, CHR 0x1D, CHR 0x1E, CHR 0x1F, CHR '' '']"

definition is_word_char :: "char \<Rightarrow> bool" where
  \<comment> \<open>the pattern \<^verbatim>\<open>\w\<close>\<close>
  "is_word_char c \<longleftrightarrow> c \<in> set (upper_letters @ lower_letters @ digit_chars @ ''_'')"

definition lower_char :: "char \<Rightarrow> char" where
  "lower_char c = (case map_of (zip upper_letters lower_letters) c of Some d \<Rightarrow> d | None \<Rightarrow> c)"

definition upper_char :: "char \<Rightarrow> char" where
  "upper_char c = (case map_of (zip lower_letters upper_letters) c of Some d \<Rightarrow> d | None \<Rightarrow> c)"

definition lower :: "string \<Rightarrow> string" where
  \<comment> \<open>\<^verbatim>\<open>str.lower()\<close>\<close>
  "lower s = map lower_char s"

definition capitalize :: "string \<Rightarrow> string" where
  \<comment> \<open>\<^verbatim>\<open>str.capitalize()\<close>: first character upper case, the rest lower case\<close>
  "capitalize s = (case s of [] \<Rightarrow> [] | c # cs \<Rightarrow> upper_char c # lower cs)"

definition strip :: "string \<Rightarrow> string" where
  \<comment> \<open>\<^verbatim>\<open>str.strip()\<close>\<close>
  "strip s = rev (dropWhile is_space (rev (dropWhile is_space s)))"

text \<open>
  \<^verbatim>\<open>str.replace(old, new)\<close> for a non-empty \<^verbatim>\<open>old\<close>: occurrences are replaced from
  the left and do not overlap. The counter is the number of characters of the occurrence
  just replaced that are still to be skipped.
\<close>

fun replace_from :: "string \<Rightarrow> string \<Rightarrow> nat \<Rightarrow> string \<Rightarrow> string" where
  "replace_from old new n [] = []"
| "replace_from old new n (c # cs) =
     (if 0 < n then replace_from old new (n - 1) cs
      else if prefix old (c # cs) then new @ replace_from old new (length old - 1) cs
      else c # replace_from old new 0 cs)"

definition replace :: "string \<Rightarrow> string \<Rightarrow> string \<Rightarrow> string" where
  "replace old new s = replace_from old new 0 s"

definition MINIMAL_REPLACEMENTS :: "(string \<times> string) list" where
  \<comment> \<open>\<^verbatim>\<open>config.MINIMAL_REPLACEMENTS\<close>, in the order of the dict literal\<close>
  "MINIMAL_REPLACEMENTS =
     [(''('', '' ''), ('')'', '' ''), (''['', '' ''), ('']'', '' ''), (''{'', '' ''), (''}'', '' ''),
      (''!'', ''''), (''?'', ''''), (''.'', ''''),
      (''&'', '' and ''), (''+'', '' and ''),
      (''/'', '' ''), ([CHR 0x5C], '' ''),
      ('' - '', '' ''), (''-'', '' ''), (''_'', '' ''),
      ('':'', ''''), ('';'', ''''), ([CHR 0x22], '''')]"

definition apply_replacements :: "string \<Rightarrow> string" where
  \<comment> \<open>\<^verbatim>\<open>for old, new in MINIMAL_REPLACEMENTS.items(): s = s.replace(old, new)\<close>\<close>
  "apply_replacements s = foldl (\<lambda>acc (old, new). replace old new acc) s MINIMAL_REPLACEMENTS"

text \<open>
  \<^verbatim>\<open>re.findall(r"\b[\w']+\b", s)\<close>. A match lies inside a maximal run of word
  characters and apostrophes. It cannot start on an apostrophe at the head of the run
  (no word boundary there), so it starts at the first word character of the run; the
  greedy repetition then backs off to the last position that is a word boundary, which is
  just after the last word character of the run. What is left of the run is apostrophes
  only and gives no further match. So each run gives its content without the leading and
  trailing apostrophes, and nothing when it holds no word character.
\<close>

fun runs_from :: "(char \<Rightarrow> bool) \<Rightarrow> string \<Rightarrow> string \<Rightarrow> string list" where
  "runs_from p cur [] = (if cur = [] then [] else [cur])"
| "runs_from p cur (c # cs) =
     (if p c then runs_from p (cur @ [c]) cs
      else (if cur = [] then [] else [cur]) @ runs_from p [] cs)"

definition trim_apostrophes :: "string \<Rightarrow> string" where
  "trim_apostrophes w =
     rev (dropWhile (\<lambda>c. c = CHR 0x27) (rev (dropWhile (\<lambda>c. c = CHR 0x27) w)))"

definition findall_words :: "string \<Rightarrow> string list" where
  "findall_words s =
     filter (\<lambda>w. w \<noteq> [])
       (map trim_apostrophes (runs_from (\<lambda>c. is_word_char c \<or> c = CHR 0x27) [] s))"

text \<open>
  \<^verbatim>\<open>RE_WHITESPACE.split(s)\<close>: the pieces between the runs of white space, the empty
  pieces at both ends included. The flag says that the last character read was white.
\<close>

fun ws_split_from :: "string \<Rightarrow> bool \<Rightarrow> string \<Rightarrow> string list" where
  "ws_split_from cur inws [] = [cur]"
| "ws_split_from cur inws (c # cs) =
     (if is_space c then (if inws then ws_split_from cur True cs else cur # ws_split_from [] True cs)
      else ws_split_from (cur @ [c]) False cs)"

definition RE_WHITESPACE_split :: "string \<Rightarrow> string list" where
  "RE_WHITESPACE_split s = ws_split_from [] False s"

fun ws_sub_from :: "bool \<Rightarrow> string \<Rightarrow> string" where
  "ws_sub_from inws [] = []"
| "ws_sub_from inws (c # cs) =
     (if is_space c then (if inws then ws_sub_from True cs else CHR '' '' # ws_sub_from True cs)
      else c # ws_sub_from False cs)"

definition RE_WHITESPACE_sub_space :: "string \<Rightarrow> string" where
  \<comment> \<open>\<^verbatim>\<open>RE_WHITESPACE.sub(' ', s)\<close>\<close>
  "RE_WHITESPACE_sub_space s = ws_sub_from False s"

fun join_space :: "string list \<Rightarrow> string" where
  "join_space [] = []"
| "join_space [w] = w"
| "join_space (w # ws) = w @ '' '' @ join_space ws"

section \<open>Helper functions of the normalizer\<close>

text \<open>
  A cell that \<^verbatim>\<open>pd.isna\<close> accepts (NaN, None) is \<^term>\<open>None\<close>; any other cell is the
  string \<^verbatim>\<open>str\<close> gives for it.
\<close>

definition preprocess_title_for_matching :: "string option \<Rightarrow> string list" where
  "preprocess_title_for_matching title =
     (case title of
        None \<Rightarrow> []
      | Some t \<Rightarrow> if t = [] then [] else findall_words (apply_replacements (lower t)))"

definition get_canonical_display_title :: "string option \<Rightarrow> string" where
  "get_canonical_display_title title =
     (case title of
        None \<Rightarrow> ''Unknown Title''
      | Some t \<Rightarrow>
          if t = [] then ''Unknown Title''
          else
            let title_str = apply_replacements t;
                words = RE_WHITESPACE_split (strip title_str);
                display_title = join_space (map capitalize (filter (\<lambda>w. w \<noteq> []) words));
                display_title = strip (RE_WHITESPACE_sub_space display_title);
                display_title =
                  (if display_title = ''4Th Of July Asbury Park Sandy''
                   then ''4th Of July Asbury Park (Sandy)'' else display_title);
                display_title =
                  (if display_title = ''Born In The Usa''
                   then ''Born In The U.S.A.'' else display_title)
            in if display_title \<noteq> [] then display_title else ''Unknown Title'')"

definition get_album_from_session :: "string option \<Rightarrow> string" where
  "get_album_from_session session =
     (case session of
        None \<Rightarrow> ''Unknown''
      | Some s \<Rightarrow>
          let album_name = strip (RE_WHITESPACE_sub_space s)
          in if lower album_name = ''born in the usa'' then ''Born in the U.S.A.'' else album_name)"

text \<open>
  \<^verbatim>\<open>is_subsequence\<close> reads the haystack through one iterator: \<^verbatim>\<open>c in it\<close> consumes
  it up to and including the first element equal to \<^verbatim>\<open>c\<close>, or to its end.
\<close>

fun is_subsequence :: "'a list \<Rightarrow> 'a list \<Rightarrow> bool" where
  "is_subsequence [] haystack = True"
| "is_subsequence (c # needle) haystack =
     (case dropWhile (\<lambda>x. x \<noteq> c) haystack of
        [] \<Rightarrow> False
      | _ # rest \<Rightarrow> is_subsequence needle rest)"

text \<open>
  The matching map is a dict from song id to word list; it is read in insertion order, so
  it is a list of pairs here. \<^verbatim>\<open>matches.sort(key=..., reverse=True)\<close> is stable:
  entries of equal length keep the order in which they were appended.
\<close>

type_synonym matching_map = "(nat \<times> string list) list"

definition find_match_by_sequence :: "string list \<Rightarrow> matching_map \<Rightarrow> nat option" where
  "find_match_by_sequence raw_title_words canonical_map =
     (if raw_title_words = [] then None
      else
        let matches =
              map (\<lambda>(song_id, canonical_words). (length canonical_words, song_id))
                (filter (\<lambda>(song_id, canonical_words).
                           canonical_words \<noteq> [] \<and> is_subsequence canonical_words raw_title_words)
                   canonical_map)
        in case sort_key (\<lambda>x. - int (fst x)) matches of
             [] \<Rightarrow> None
           | m # _ \<Rightarrow> Some (snd m))"

text \<open>
  The candidates of the matcher for a query: the entries with a non-empty word list that is
  an ordered subsequence of the query (\<^const>\<open>subseq\<close>: the words occur in the query in
  the same order, other words may stand between them).
\<close>

definition candidate :: "string list \<Rightarrow> nat \<times> string list \<Rightarrow> bool" where
  "candidate q e \<longleftrightarrow> snd e \<noteq> [] \<and> subseq (snd e) q"

section \<open>The song catalog: \<^verbatim>\<open>create_final_songs_table\<close>\<close>

datatype py_error = KeyError | ValueError | OverflowError

text \<open>
  A row of the sessions frame after the renaming of its columns (\<^verbatim>\<open>song_title\<close> to
  \<^verbatim>\<open>song\<close>, \<^verbatim>\<open>album_or_outtake\<close> to \<^verbatim>\<open>type\<close>). A column that the file does not
  have reads as the empty string in every row, as \<^verbatim>\<open>row.get(col, '')\<close> gives.
\<close>

record session_row =
  session :: "string option"
  session_type :: string
  session_song :: "string option"

text \<open>
  A row of the raw setlists frame: the cells as strings. The frame is read with
  \<^verbatim>\<open>keep_default_na=False\<close>, and every cell but \<^verbatim>\<open>song\<close> in the catalog pass
  goes through \<^verbatim>\<open>str\<close>; a numeric cell stands here as its literal.
\<close>

record setlist_row =
  date :: string
  venue :: string
  tour :: string
  city :: string
  statecode :: string
  statename :: string
  countrycode :: string
  countryname :: string
  shownotes :: string
  song :: string
  position :: string
  song_notes :: string

text \<open>
  The columns of the songs table, and the dicts of \<^verbatim>\<open>all_songs_data\<close> and
  \<^verbatim>\<open>new_songs_data\<close>, which carry \<^verbatim>\<open>_processed_words\<close> instead of an id.
\<close>

record song_columns =
  title :: string
  album :: string
  is_outtake :: nat

record song_data = song_columns +
  processed_words :: "string list"

record songs_row = song_columns +
  song_id :: nat

definition is_missing :: "string option \<Rightarrow> bool" where
  \<comment> \<open>\<^verbatim>\<open>pd.isna(x) or not x\<close>\<close>
  "is_missing c = (case c of None \<Rightarrow> True | Some s \<Rightarrow> s = [])"

definition session_step ::
  "session_row \<Rightarrow> song_data list \<times> string list set \<Rightarrow> song_data list \<times> string list set" where
  "session_step row st =
     (case st of (all_songs_data, seen_preprocessed_words) \<Rightarrow>
        let title_raw = session_song row in
        if is_missing title_raw then st
        else
          let pw = preprocess_title_for_matching title_raw;
              display_title = get_canonical_display_title title_raw
          in if pw = [] \<or> display_title = [] then st
             else if pw \<in> seen_preprocessed_words then st
             else
               let album_name = get_album_from_session (session row);
                   outtake = (if lower (session_type row) = ''outtake'' then 1 else 0)
               in (all_songs_data @
                     [\<lparr>title = display_title, album = album_name, is_outtake = outtake,
                       processed_words = pw\<rparr>],
                   insert pw seen_preprocessed_words))"

fun sessions_loop ::
  "session_row list \<Rightarrow> song_data list \<times> string list set \<Rightarrow> song_data list \<times> string list set" where
  "sessions_loop [] st = st"
| "sessions_loop (row # rows) st = sessions_loop rows (session_step row st)"

text \<open>
  \<^verbatim>\<open>drop_duplicates(keep='first')\<close> on a key: a row is kept when no earlier row has
  its key.
\<close>

fun drop_duplicates_from :: "('a \<Rightarrow> 'k) \<Rightarrow> 'k set \<Rightarrow> 'a list \<Rightarrow> 'a list" where
  "drop_duplicates_from key seen [] = []"
| "drop_duplicates_from key seen (x # xs) =
     (if key x \<in> seen then drop_duplicates_from key seen xs
      else x # drop_duplicates_from key (insert (key x) seen) xs)"

definition drop_duplicates :: "('a \<Rightarrow> 'k) \<Rightarrow> 'a list \<Rightarrow> 'a list" where
  "drop_duplicates key xs = drop_duplicates_from key {} xs"

text \<open>
  \<^verbatim>\<open>missing_songs_map\<close> is a \<^verbatim>\<open>defaultdict(set)\<close>: the keys are read in the order
  in which they were first stored. The set of raw titles of a key is kept as the list of
  its elements in the order they were added; the order in which Python iterates that set is
  a parameter of the catalog builder (\<open>set_iter\<close> below).
\<close>

type_synonym missing_map = "(string list \<times> string list) list"

definition add_title :: "string list \<Rightarrow> string \<Rightarrow> missing_map \<Rightarrow> missing_map" where
  \<comment> \<open>\<^verbatim>\<open>missing_songs_map[processed_words].add(str(title_raw))\<close>\<close>
  "add_title pw t m =
     (if pw \<in> fst ` set m
      then map (\<lambda>(k, ts). if k = pw then (k, if t \<in> set ts then ts else ts @ [t]) else (k, ts)) m
      else m @ [(pw, [t])])"

definition missing_step :: "string list set \<Rightarrow> string \<Rightarrow> missing_map \<Rightarrow> missing_map" where
  "missing_step known_processed_words title_raw m =
     (if title_raw = [] then m
      else
        let pw = preprocess_title_for_matching (Some title_raw)
        in if pw = [] then m
           else if pw \<notin> known_processed_words then add_title pw title_raw m
           else m)"

fun missing_loop :: "string list set \<Rightarrow> string list \<Rightarrow> missing_map \<Rightarrow> missing_map" where
  "missing_loop known [] m = m"
| "missing_loop known (t # ts) m = missing_loop known ts (missing_step known t m)"

text \<open>
  \<^verbatim>\<open>min(xs, key=len)\<close>: the first element of minimal length in iteration order;
  \<^verbatim>\<open>ValueError\<close> on an empty collection.
\<close>

fun min_by_len :: "string list \<Rightarrow> string option" where
  "min_by_len [] = None"
| "min_by_len (x # xs) = Some (foldl (\<lambda>best y. if length y < length best then y else best) x xs)"

fun covers_loop ::
  "(string list \<Rightarrow> string list) \<Rightarrow> missing_map \<Rightarrow> song_data list \<Rightarrow> py_error + song_data list" where
  "covers_loop set_iter [] new_songs_data = Inr new_songs_data"
| "covers_loop set_iter ((pw, original_titles) # m) new_songs_data =
     (case min_by_len (set_iter original_titles) of
        None \<Rightarrow> Inl ValueError
      | Some representative_raw \<Rightarrow>
          let display_title = get_canonical_display_title (Some representative_raw)
          in if display_title = [] then covers_loop set_iter m new_songs_data
             else covers_loop set_iter m
                    (new_songs_data @
                       [\<lparr>title = display_title, album = ''Cover'', is_outtake = 0,
                         processed_words = pw\<rparr>]))"

text \<open>
  The catalog builder. \<open>set_iter\<close> gives, for the elements of a set of strings, the order
  in which \<^verbatim>\<open>min\<close> reads them. \<^verbatim>\<open>initial_songs_df['_processed_words']\<close> raises
  \<^verbatim>\<open>KeyError\<close> when no session row gave a song, since the frame built from an empty
  list has no columns.
\<close>

definition create_final_songs_table ::
  "(string list \<Rightarrow> string list) \<Rightarrow> session_row list \<Rightarrow> setlist_row list \<Rightarrow>
     py_error + (songs_row list \<times> matching_map)" where
  "create_final_songs_table set_iter songs_sessions_df setlists_input_df =
     (let all_songs_data = fst (sessions_loop songs_sessions_df ([], {}))
      in if all_songs_data = [] then Inl KeyError
         else
           let known_processed_words = set (map processed_words all_songs_data);
               unique_setlist_titles = drop_duplicates (\<lambda>t. t) (map song setlists_input_df);
               missing_songs_map = missing_loop known_processed_words unique_setlist_titles []
           in case covers_loop set_iter missing_songs_map [] of
                Inl e \<Rightarrow> Inl e
              | Inr new_songs_data \<Rightarrow>
                  let final_songs_df = drop_duplicates processed_words (all_songs_data @ new_songs_data);
                      ids = [1 ..< length final_songs_df + 1];
                      songs_table_final =
                        map (\<lambda>(i, e). \<lparr>title = title e, album = album e, is_outtake = is_outtake e,
                                        song_id = i\<rparr>)
                          (zip ids final_songs_df);
                      matching_map = zip ids (map processed_words final_songs_df)
                  in Inr (songs_table_final, matching_map))"

section \<open>Shows and setlists: \<^verbatim>\<open>create_shows_setlists_tables\<close>\<close>

record show_row =
  show_id :: nat
  show_date :: "string option"
  show_tour :: string
  show_venue :: string
  show_city :: string
  state_name :: "string option"
  state_code :: "string option"
  country_name :: "string option"
  country_code :: "string option"
  show_notes :: "string option"

record setlist_entry =
  setlist_entry_id :: nat
  entry_show_id :: nat
  entry_song_id :: nat
  entry_position :: int
  entry_notes :: string

text \<open>
  \<^verbatim>\<open>pd.to_datetime(s, format='%m/%d/%Y', errors='coerce')\<close> is a parameter
  \<open>to_datetime\<close> of the model: the year, month and day of the timestamp, or
  \<^term>\<open>None\<close> for \<^verbatim>\<open>NaT\<close>. \<^verbatim>\<open>strftime\<close> pads with zeros.
\<close>

definition digit_char :: "nat \<Rightarrow> char" where
  "digit_char n = digit_chars ! (n mod 10)"

definition strftime_Y :: "nat \<times> nat \<times> nat \<Rightarrow> string" where
  \<comment> \<open>\<^verbatim>\<open>date_obj.strftime('%Y')\<close>\<close>
  "strftime_Y d =
     (case d of (y, m, dd) \<Rightarrow>
        [digit_char (y div 1000), digit_char (y div 100), digit_char (y div 10), digit_char y])"

definition strftime_Ymd :: "nat \<times> nat \<times> nat \<Rightarrow> string" where
  \<comment> \<open>\<^verbatim>\<open>date_obj.strftime('%Y-%m-%d')\<close>\<close>
  "strftime_Ymd d =
     (case d of (y, m, dd) \<Rightarrow>
        strftime_Y d @ ''-'' @ [digit_char (m div 10), digit_char m] @ ''-'' @
        [digit_char (dd div 10), digit_char dd])"

definition none_if_empty :: "string \<Rightarrow> string option" where
  \<comment> \<open>\<^verbatim>\<open>x if x else None\<close>\<close>
  "none_if_empty x = (if x \<noteq> [] then Some x else None)"

text \<open>
  The state of the first loop over the raw rows. \<^verbatim>\<open>original_show_key_to_id_map\<close> is a
  dict: a list of pairs in insertion order, read with \<^const>\<open>map_of\<close>.
\<close>

record shows_state =
  shows_data :: "show_row list"
  show_keys :: "(string option \<times> string) set"
  original_show_key_to_id_map :: "((string \<times> string) \<times> nat) list"
  show_id_counter :: nat
  skipped_duplicate_shows :: nat

text \<open>
  The dict appended to \<^verbatim>\<open>shows_data\<close> for a row that is the first of its show (lines
  179 to 201), and the body of the loop.
\<close>

definition new_show ::
  "(string \<Rightarrow> (nat \<times> nat \<times> nat) option) \<Rightarrow> setlist_row \<Rightarrow> nat \<Rightarrow> show_row" where
  "new_show to_datetime row current_show_id =
     (let original_venue_str = strip (venue row);
          date_obj = to_datetime (strip (date row));
          db_date_str = map_option strftime_Ymd date_obj;
          output_year = map_option strftime_Y date_obj;
          venue_str = (if original_venue_str \<noteq> [] then original_venue_str else ''Unknown Venue'');
          raw_tour_name = strip (tour row);
          raw_city = strip (city row);
          final_tour_name =
            (if raw_tour_name \<noteq> [] then raw_tour_name
             else case output_year of
                    Some y \<Rightarrow> if y \<noteq> [] then y else ''Unknown Tour''
                  | None \<Rightarrow> ''Unknown Tour'')
      in \<lparr>show_id = current_show_id, show_date = db_date_str, show_tour = final_tour_name,
          show_venue = venue_str,
          show_city = (if raw_city \<noteq> [] then raw_city else ''Unknown City''),
          state_name = none_if_empty (strip (statename row)),
          state_code = none_if_empty (strip (statecode row)),
          country_name = none_if_empty (strip (countryname row)),
          country_code = none_if_empty (strip (countrycode row)),
          show_notes = none_if_empty (strip (shownotes row))\<rparr>)"

definition show_step ::
  "(string \<Rightarrow> (nat \<times> nat \<times> nat) option) \<Rightarrow> setlist_row \<Rightarrow> shows_state \<Rightarrow> shows_state" where
  "show_step to_datetime row st =
     (let original_date_str = strip (date row);
          original_venue_str = strip (venue row)
      in if original_date_str = [] \<or> original_venue_str = [] then st
         else
           let db_date_str = map_option strftime_Ymd (to_datetime original_date_str);
               venue_str = (if original_venue_str \<noteq> [] then original_venue_str else ''Unknown Venue'');
               unique_show_key = (db_date_str, venue_str)
           in if unique_show_key \<in> show_keys st
              then st\<lparr>skipped_duplicate_shows := skipped_duplicate_shows st + 1\<rparr>
              else
                let current_show_id = show_id_counter st;
                    original_input_key = (original_date_str, original_venue_str)
                in st\<lparr>shows_data := shows_data st @ [new_show to_datetime row current_show_id],
                       show_keys := insert unique_show_key (show_keys st),
                       original_show_key_to_id_map :=
                         (if map_of (original_show_key_to_id_map st) original_input_key = None
                          then original_show_key_to_id_map st @ [(original_input_key, current_show_id)]
                          else original_show_key_to_id_map st),
                       show_id_counter := show_id_counter st + 1\<rparr>)"

fun shows_loop ::
  "(string \<Rightarrow> (nat \<times> nat \<times> nat) option) \<Rightarrow> setlist_row list \<Rightarrow> shows_state \<Rightarrow> shows_state" where
  "shows_loop to_datetime [] st = st"
| "shows_loop to_datetime (row # rows) st = shows_loop to_datetime rows (show_step to_datetime row st)"

definition initial_shows_state :: shows_state where
  "initial_shows_state =
     \<lparr>shows_data = [], show_keys = {}, original_show_key_to_id_map = [], show_id_counter = 1,
      skipped_duplicate_shows = 0\<rparr>"

subsection \<open>The contextual check and the choice of the song\<close>

definition standard_bitusa_words :: "string list" where
  "standard_bitusa_words = preprocess_title_for_matching (Some ''Born In The USA'')"

definition reunion_bitusa_words :: "string list" where
  "reunion_bitusa_words = preprocess_title_for_matching (Some ''Born In The USA (Acoustic)'')"

definition REUNION_TOUR_RAW_NAMES :: "string set" where
  "REUNION_TOUR_RAW_NAMES = {''reunion tour'', ''reunion''}"

fun find_bitusa_ids :: "matching_map \<Rightarrow> nat option \<times> nat option \<Rightarrow> nat option \<times> nat option" where
  "find_bitusa_ids [] ids = ids"
| "find_bitusa_ids ((s_id, words_list) # m) ids =
     (if words_list = standard_bitusa_words then find_bitusa_ids m (Some s_id, snd ids)
      else if words_list = reunion_bitusa_words then find_bitusa_ids m (fst ids, Some s_id)
      else find_bitusa_ids m ids)"

definition truthy :: "nat option \<Rightarrow> bool" where
  \<comment> \<open>the truth value of an optional id: \<^verbatim>\<open>None\<close> and \<^verbatim>\<open>0\<close> are false\<close>
  "truthy x = (case x of None \<Rightarrow> False | Some n \<Rightarrow> n \<noteq> 0)"

text \<open>
  Lines 257 to 276: the song id for the words of a row and the label under which the row
  is counted in \<^verbatim>\<open>match_stats\<close>.
\<close>

definition select_song ::
  "nat option \<Rightarrow> nat option \<Rightarrow> (nat \<times> string) list \<Rightarrow> matching_map \<Rightarrow> nat \<Rightarrow> string list \<Rightarrow>
     nat option \<times> string" where
  "select_song standard_bitusa_id reunion_bitusa_id show_id_to_tour_map canonical_matching_map
       sid raw_title_words =
     (let contextual =
            (if raw_title_words = standard_bitusa_words \<and> standard_bitusa_id \<noteq> None
             then
               let tour_name = (case map_of show_id_to_tour_map sid of Some t \<Rightarrow> t | None \<Rightarrow> [])
               in if lower tour_name \<in> REUNION_TOUR_RAW_NAMES \<and> reunion_bitusa_id \<noteq> None
                  then (reunion_bitusa_id, ''Contextual (Reunion Tour)'')
                  else (standard_bitusa_id, ''Contextual (Standard BITUSA)'')
             else (None, ''Sequence Match''))
      in if fst contextual = None
         then
           let song_id_to_use = find_match_by_sequence raw_title_words canonical_matching_map
           in if truthy song_id_to_use then (song_id_to_use, ''Sequence Match (Success)'')
              else (song_id_to_use, ''Sequence Match (Fail)'')
         else contextual)"

subsection \<open>The position and the second loop\<close>

text \<open>
  \<^verbatim>\<open>pd.to_numeric(v, errors='coerce')\<close> is a parameter \<open>to_numeric\<close> of the model, with
  the values a float or an integer can take. \<^verbatim>\<open>int\<close> truncates a float towards zero
  and raises \<^verbatim>\<open>OverflowError\<close> on an infinity, which the \<^verbatim>\<open>except\<close> clause
  (\<^verbatim>\<open>ValueError\<close>, \<^verbatim>\<open>TypeError\<close>) does not catch.
\<close>

datatype numeric = NaN | Infinity | IntVal int | FloatVal rat

definition parse_position :: "(string \<Rightarrow> numeric) \<Rightarrow> string \<Rightarrow> py_error + int" where
  "parse_position to_numeric position_val =
     (case to_numeric position_val of
        NaN \<Rightarrow> Inr 0
      | Infinity \<Rightarrow> Inl OverflowError
      | IntVal n \<Rightarrow> Inr n
      | FloatVal q \<Rightarrow> Inr (if 0 \<le> q then \<lfloor>q\<rfloor> else \<lceil>q\<rceil>))"

record setlists_state =
  setlists :: "setlist_entry list"
  setlist_entry_id_counter :: nat
  setlist_keys :: "(nat \<times> nat \<times> int) set"
  match_stats :: "string \<Rightarrow> nat"
  skipped_rows :: nat
  duplicate_setlist_entries_skipped :: nat

definition count_method :: "string \<Rightarrow> setlists_state \<Rightarrow> setlists_state" where
  \<comment> \<open>\<^verbatim>\<open>match_stats[match_method] += 1\<close>\<close>
  "count_method m st = st\<lparr>match_stats := (match_stats st)(m := match_stats st m + 1)\<rparr>"

definition setlist_step ::
  "(string \<Rightarrow> numeric) \<Rightarrow> ((string \<times> string) \<times> nat) list \<Rightarrow> nat option \<Rightarrow> nat option \<Rightarrow>
     (nat \<times> string) list \<Rightarrow> matching_map \<Rightarrow> setlist_row \<Rightarrow> setlists_state \<Rightarrow>
     py_error + setlists_state" where
  "setlist_step to_numeric final_show_mapping standard_bitusa_id reunion_bitusa_id
       show_id_to_tour_map canonical_matching_map row st =
     (let original_input_key = (strip (date row), strip (venue row));
          song_title_raw = strip (song row);
          skip = (\<lambda>s. Inr (s\<lparr>skipped_rows := skipped_rows s + 1\<rparr>))
      in case map_of final_show_mapping original_input_key of
           None \<Rightarrow> skip st
         | Some sid \<Rightarrow>
             if sid = 0 then skip st
             else if song_title_raw = [] then skip st
             else
               let raw_title_words = preprocess_title_for_matching (Some song_title_raw)
               in if raw_title_words = [] then skip st
                  else
                    let choice = select_song standard_bitusa_id reunion_bitusa_id
                                   show_id_to_tour_map canonical_matching_map sid raw_title_words;
                        st1 = count_method (snd choice) st
                    in case fst choice of
                         None \<Rightarrow> skip st1
                       | Some song_id_to_use \<Rightarrow>
                           if song_id_to_use = 0 then skip st1
                           else
                             case parse_position to_numeric (position row) of
                               Inl e \<Rightarrow> Inl e
                             | Inr pos \<Rightarrow>
                                 let setlist_key = (sid, song_id_to_use, pos)
                                 in if setlist_key \<in> setlist_keys st1
                                    then Inr (st1\<lparr>duplicate_setlist_entries_skipped :=
                                                     duplicate_setlist_entries_skipped st1 + 1\<rparr>)
                                    else
                                      Inr (st1\<lparr>setlists := setlists st1 @
                                                  [\<lparr>setlist_entry_id = setlist_entry_id_counter st1,
                                                    entry_show_id = sid,
                                                    entry_song_id = song_id_to_use,
                                                    entry_position = pos,
                                                    entry_notes = strip (song_notes row)\<rparr>],
                                                setlist_keys := insert setlist_key (setlist_keys st1),
                                                setlist_entry_id_counter :=
                                                  setlist_entry_id_counter st1 + 1\<rparr>))"

fun setlists_loop ::
  "(setlist_row \<Rightarrow> setlists_state \<Rightarrow> py_error + setlists_state) \<Rightarrow> setlist_row list \<Rightarrow>
     setlists_state \<Rightarrow> py_error + setlists_state" where
  "setlists_loop step [] st = Inr st"
| "setlists_loop step (row # rows) st =
     (case step row st of Inl e \<Rightarrow> Inl e | Inr st' \<Rightarrow> setlists_loop step rows st')"

definition initial_setlists_state :: setlists_state where
  "initial_setlists_state =
     \<lparr>setlists = [], setlist_entry_id_counter = 1, setlist_keys = {}, match_stats = (\<lambda>m. 0),
      skipped_rows = 0, duplicate_setlist_entries_skipped = 0\<rparr>"

text \<open>
  The whole function. \<^verbatim>\<open>shows_df.set_index('show_id')\<close> raises \<^verbatim>\<open>KeyError\<close> when
  no show was found, since the frame built from an empty list has no columns.
\<close>

definition resolve_shows ::
  "(string \<Rightarrow> (nat \<times> nat \<times> nat) option) \<Rightarrow> setlist_row list \<Rightarrow> shows_state" where
  \<comment> \<open>lines 150 to 205\<close>
  "resolve_shows to_datetime setlists_input_df = shows_loop to_datetime setlists_input_df initial_shows_state"

definition create_shows_setlists_tables ::
  "(string \<Rightarrow> (nat \<times> nat \<times> nat) option) \<Rightarrow> (string \<Rightarrow> numeric) \<Rightarrow> setlist_row list \<Rightarrow>
     matching_map \<Rightarrow> py_error + (show_row list \<times> setlist_entry list)" where
  "create_shows_setlists_tables to_datetime to_numeric setlists_input_df canonical_matching_map =
     (let rs = resolve_shows to_datetime setlists_input_df;
          shows_df = shows_data rs;
          final_show_mapping = original_show_key_to_id_map rs;
          ids = find_bitusa_ids canonical_matching_map (None, None)
      in if shows_df = [] then Inl KeyError
         else
           let show_id_to_tour_map = map (\<lambda>s. (show_id s, show_tour s)) shows_df
           in case setlists_loop
                     (setlist_step to_numeric final_show_mapping (fst ids) (snd ids)
                        show_id_to_tour_map canonical_matching_map)
                     setlists_input_df initial_setlists_state of
                Inl e \<Rightarrow> Inl e
              | Inr st \<Rightarrow> Inr (shows_df, setlists st))"

section \<open>The batch: \<^verbatim>\<open>normalize_database_schema\<close>\<close>

text \<open>
  The two tables are built one after the other; an exception of the first or of the second
  function ends the run before anything is saved.
\<close>

definition normalize_tables ::
  "(string list \<Rightarrow> string list) \<Rightarrow> (string \<Rightarrow> (nat \<times> nat \<times> nat) option) \<Rightarrow> (string \<Rightarrow> numeric) \<Rightarrow>
     session_row list \<Rightarrow> setlist_row list \<Rightarrow>
     py_error + (songs_row list \<times> show_row list \<times> setlist_entry list)" where
  "normalize_tables set_iter to_datetime to_numeric songs_sessions_df setlists_input_df =
     (case create_final_songs_table set_iter songs_sessions_df setlists_input_df of
        Inl e \<Rightarrow> Inl e
      | Inr (songs_table_final, canonical_matching_map) \<Rightarrow>
          (case create_shows_setlists_tables to_datetime to_numeric setlists_input_df
                  canonical_matching_map of
             Inl e \<Rightarrow> Inl e
           | Inr (shows_table_normalized, setlists_table_normalized) \<Rightarrow>
               Inr (songs_table_final, shows_table_normalized, setlists_table_normalized)))"

text \<open>
  The files the batch touches. An input file is missing (\<^verbatim>\<open>exists()\<close> is false), or
  \<^verbatim>\<open>read_csv\<close> raises on it, or it loads as a list of rows. An output file holds a
  table or does not exist. \<open>to_csv_fails\<close> says which of the three writes raise; a write
  that raises is taken to leave its file as it was.
\<close>

datatype 'a input_file = Missing | Unreadable | Loaded 'a

datatype output_name = SongsCsv | ShowsCsv | SetlistsCsv

datatype exit_reason = SessionsFileNotFound | SetlistsFileNotFound | LoadError

datatype outcome = SysExit exit_reason | Raised py_error | Returned

record file_system =
  songs_sessions_file :: "session_row list input_file"
  setlists_raw_file :: "setlist_row list input_file"
  songs_output_file :: "songs_row list option"
  shows_output_file :: "show_row list option"
  setlists_output_file :: "setlist_entry list option"

definition save_tables ::
  "(output_name \<Rightarrow> bool) \<Rightarrow> songs_row list \<times> show_row list \<times> setlist_entry list \<Rightarrow>
     file_system \<Rightarrow> file_system" where
  \<comment> \<open>lines 368 to 378: three writes under one \<^verbatim>\<open>try\<close>, the exception is logged\<close>
  "save_tables to_csv_fails tables fs =
     (case tables of (songs_t, shows_t, setlists_t) \<Rightarrow>
        if to_csv_fails SongsCsv then fs
        else
          let fs1 = fs\<lparr>songs_output_file := Some songs_t\<rparr>
          in if to_csv_fails ShowsCsv then fs1
             else
               let fs2 = fs1\<lparr>shows_output_file := Some shows_t\<rparr>
               in if to_csv_fails SetlistsCsv then fs2
                  else fs2\<lparr>setlists_output_file := Some setlists_t\<rparr>)"

definition normalize_database_schema ::
  "(string list \<Rightarrow> string list) \<Rightarrow> (string \<Rightarrow> (nat \<times> nat \<times> nat) option) \<Rightarrow> (string \<Rightarrow> numeric) \<Rightarrow>
     (output_name \<Rightarrow> bool) \<Rightarrow> file_system \<Rightarrow> outcome \<times> file_system" where
  "normalize_database_schema set_iter to_datetime to_numeric to_csv_fails fs =
     (if songs_sessions_file fs = Missing then (SysExit SessionsFileNotFound, fs)
      else if setlists_raw_file fs = Missing then (SysExit SetlistsFileNotFound, fs)
      else
        case songs_sessions_file fs of
          Loaded songs_sessions_df \<Rightarrow>
            (case setlists_raw_file fs of
               Loaded setlists_input_df \<Rightarrow>
                 (case normalize_tables set_iter to_datetime to_numeric songs_sessions_df
                         setlists_input_df of
                    Inl e \<Rightarrow> (Raised e, fs)
                  | Inr tables \<Rightarrow> (Returned, save_tables to_csv_fails tables fs))
             | _ \<Rightarrow> (SysExit LoadError, fs))
        | _ \<Rightarrow> (SysExit LoadError, fs))"

section \<open>Library calls on the cells of the examples\<close>

text \<open>
  The theorems below hold for every \<open>to_datetime\<close>, \<open>to_numeric\<close> and \<open>set_iter\<close>. To
  run the model on concrete rows, these are the values of the pandas calls on the cells
  that occur there: a date written \<^verbatim>\<open>m/d/yyyy\<close> with one or two digits for month and
  day and a year a timestamp can hold, and an integer literal with an optional sign. Any
  other string reads as \<^verbatim>\<open>NaT\<close> and as \<^verbatim>\<open>NaN\<close> here.
\<close>

fun split_from :: "char \<Rightarrow> string \<Rightarrow> string \<Rightarrow> string list" where
  "split_from sep cur [] = [cur]"
| "split_from sep cur (c # cs) =
     (if c = sep then cur # split_from sep [] cs else split_from sep (cur @ [c]) cs)"

definition digit_val :: "char \<Rightarrow> nat option" where
  "digit_val c = map_of (zip digit_chars [0 ..< 10]) c"

fun nat_of_digits_from :: "nat \<Rightarrow> string \<Rightarrow> nat option" where
  "nat_of_digits_from n [] = Some n"
| "nat_of_digits_from n (c # cs) =
     (case digit_val c of None \<Rightarrow> None | Some d \<Rightarrow> nat_of_digits_from (10 * n + d) cs)"

definition nat_of_digits :: "string \<Rightarrow> nat option" where
  "nat_of_digits s = (if s = [] then None else nat_of_digits_from 0 s)"

definition days_in_month :: "nat \<Rightarrow> nat \<Rightarrow> nat" where
  "days_in_month y m =
     (if m = 2 then (if y mod 4 = 0 \<and> (y mod 100 \<noteq> 0 \<or> y mod 400 = 0) then 29 else 28)
      else if m = 4 \<or> m = 6 \<or> m = 9 \<or> m = 11 then 30 else 31)"

definition to_datetime_mdy :: "string \<Rightarrow> (nat \<times> nat \<times> nat) option" where
  "to_datetime_mdy s =
     (case split_from CHR ''/'' [] s of
        [ms, ds, ys] \<Rightarrow>
          (case (nat_of_digits ms, nat_of_digits ds, nat_of_digits ys) of
             (Some m, Some d, Some y) \<Rightarrow>
               if length ms \<le> 2 \<and> length ds \<le> 2 \<and> length ys = 4 \<and>
                  1 \<le> m \<and> m \<le> 12 \<and> 1 \<le> d \<and> d \<le> days_in_month y m \<and>
                  1678 \<le> y \<and> y \<le> 2261
               then Some (y, m, d) else None
           | _ \<Rightarrow> None)
      | _ \<Rightarrow> None)"

definition to_numeric_literal :: "string \<Rightarrow> numeric" where
  "to_numeric_literal s =
     (case s of
        [] \<Rightarrow> NaN
      | c # cs \<Rightarrow>
          if c = CHR ''-'' then (case nat_of_digits cs of Some n \<Rightarrow> IntVal (- int n) | None \<Rightarrow> NaN)
          else if c = CHR ''+'' then (case nat_of_digits cs of Some n \<Rightarrow> IntVal (int n) | None \<Rightarrow> NaN)
          else (case nat_of_digits s of Some n \<Rightarrow> IntVal (int n) | None \<Rightarrow> NaN))"

definition blank_row :: setlist_row where
  \<comment> \<open>a raw row with every cell empty, to write example rows from\<close>
  "blank_row =
     \<lparr>date = [], venue = [], tour = [], city = [], statecode = [], statename = [],
      countrycode = [], countryname = [], shownotes = [], song = [], position = [],
      song_notes = []\<rparr>"

text \<open>An example of a file system in which the raw setlists file is missing.\<close>

definition example_files :: file_system where
  "example_files =
     \<lparr>songs_sessions_file = Loaded [], setlists_raw_file = Missing,
      songs_output_file = None, shows_output_file = None, setlists_output_file = None\<rparr>"

subsection \<open>Notions used to state the properties of the catalog\<close>

text \<open>The words of the title of a session row, and of a raw setlist title.\<close>

definition stok :: "session_row \<Rightarrow> string list" where
  "stok r = preprocess_title_for_matching (session_song r)"

definition stl_tok :: "string \<Rightarrow> string list" where
  "stl_tok t = preprocess_title_for_matching (Some t)"

text \<open>The raw titles stored under a key of the map of missing songs.\<close>

definition titles_of :: "missing_map \<Rightarrow> string list \<Rightarrow> string set" where
  "titles_of m k = (\<Union>e \<in> {e \<in> set m. fst e = k}. set (snd e))"

text \<open>
  What the loop over the missing songs appends for a key and its set of raw titles: the
  words are the key, the album is \<^verbatim>\<open>Cover\<close>, and the title is the display title of the
  first shortest raw title in the iteration order of the set.
\<close>

definition cover_of :: "(string list \<Rightarrow> string list) \<Rightarrow> string list \<times> string list \<Rightarrow> song_data \<Rightarrow> bool" where
  "cover_of set_iter kg e \<longleftrightarrow>
     processed_words e = fst kg \<and> album e = ''Cover'' \<and> is_outtake e = 0 \<and>
     (\<exists>rep. min_by_len (set_iter (snd kg)) = Some rep \<and>
            title e = get_canonical_display_title (Some rep))"

text \<open>
  The word lists of the session titles; the non-empty ones in the order of their first
  row; the non-empty word lists of the raw setlist titles that no session title has, in
  the order of their first row; and the raw setlist titles that have a given word list.
\<close>

definition session_tokens :: "session_row list \<Rightarrow> string list set" where
  "session_tokens S = stok ` set S"

definition session_keys :: "session_row list \<Rightarrow> string list list" where
  "session_keys S = drop_duplicates (\<lambda>k. k) (filter (\<lambda>w. w \<noteq> []) (map stok S))"

definition cover_keys :: "session_row list \<Rightarrow> setlist_row list \<Rightarrow> string list list" where
  "cover_keys S L =
     drop_duplicates (\<lambda>k. k)
       (filter (\<lambda>k. k \<noteq> [] \<and> k \<notin> session_tokens S) (map (\<lambda>r. stl_tok (song r)) L))"

definition raw_titles :: "setlist_row list \<Rightarrow> string list \<Rightarrow> string set" where
  "raw_titles L k = {t \<in> song ` set L. stl_tok t = k}"

text \<open>Example inputs: one session song, and three setlist rows of one show.\<close>

definition example_sessions :: "session_row list" where
  "example_sessions =
     [\<lparr>session = Some ''Born To Run'', session_type = ''Album'', session_song = Some ''Thunder Road''\<rparr>]"

definition example_setlist :: "setlist_row list" where
  "example_setlist =
     [blank_row\<lparr>date := ''08/15/1975'', venue := ''The Bottom Line'', tour := ''1975 Tour'',
                song := ''B'', position := ''1''\<rparr>,
      blank_row\<lparr>date := ''08/15/1975'', venue := ''The Bottom Line'', tour := ''1975 Tour'',
                song := ''Thunder Road'', position := ''2''\<rparr>,
      blank_row\<lparr>date := ''08/15/1975'', venue := ''The Bottom Line'', tour := ''1975 Tour'',
                song := ''A'', position := ''3''\<rparr>]"

text \<open>
  Two raw titles of the same length with the same word list and different display titles.
\<close>

definition gloria_setlist :: "setlist_row list" where
  "gloria_setlist =
     [blank_row\<lparr>date := ''08/15/1975'', venue := ''The Bottom Line'', tour := ''1975 Tour'',
                song := ''Gloria*'', position := ''1''\<rparr>,
      blank_row\<lparr>date := ''08/15/1975'', venue := ''The Bottom Line'', tour := ''1975 Tour'',
                song := ''Gloria,'', position := ''2''\<rparr>]"

text \<open>
  A file system with both input files loaded and no output file yet, and a save step in
  which the write of the shows table raises (the file is open in another program, say).
\<close>

definition loaded_files :: file_system where
  "loaded_files =
     \<lparr>songs_sessions_file = Loaded example_sessions, setlists_raw_file = Loaded example_setlist,
      songs_output_file = None, shows_output_file = None, setlists_output_file = None\<rparr>"

definition shows_write_fails :: "output_name \<Rightarrow> bool" where
  "shows_write_fails n \<longleftrightarrow> n = ShowsCsv"

subsection \<open>Notions used to state the properties of the show resolver\<close>

text \<open>
  The key under which a row is looked up in \<^verbatim>\<open>original_show_key_to_id_map\<close> (its date
  and venue cells, stripped); the rows that pass line 165; the identity key of a show
  (normalized date or none, stripped venue); the original keys of the rows that are the
  first of their identity key, in input order; and the identity key a show row carries.
\<close>

definition orig_key :: "setlist_row \<Rightarrow> string \<times> string" where
  "orig_key row = (strip (date row), strip (venue row))"

definition valid_key :: "string \<times> string \<Rightarrow> bool" where
  "valid_key k \<longleftrightarrow> fst k \<noteq> [] \<and> snd k \<noteq> []"

definition identity_key ::
  "(string \<Rightarrow> (nat \<times> nat \<times> nat) option) \<Rightarrow> string \<times> string \<Rightarrow> string option \<times> string" where
  "identity_key to_datetime k = (map_option strftime_Ymd (to_datetime (fst k)), snd k)"

definition minting_keys ::
  "(string \<Rightarrow> (nat \<times> nat \<times> nat) option) \<Rightarrow> setlist_row list \<Rightarrow> (string \<times> string) list" where
  "minting_keys to_datetime rows =
     drop_duplicates (identity_key to_datetime) (filter valid_key (map orig_key rows))"

definition show_key :: "show_row \<Rightarrow> string option \<times> string" where
  "show_key s = (show_date s, show_venue s)"

text \<open>
  The show id under which the second loop files a row: line 250 reads the original-key map
  at the stripped date and venue cells of the row.
\<close>

definition show_id_of_row ::
  "(string \<Rightarrow> (nat \<times> nat \<times> nat) option) \<Rightarrow> setlist_row list \<Rightarrow> setlist_row \<Rightarrow> nat option" where
  "show_id_of_row to_datetime rows row =
     map_of (original_show_key_to_id_map (resolve_shows to_datetime rows))
       (strip (date row), strip (venue row))"

text \<open>What holds of the state of the first loop after every row.\<close>

definition shows_inv ::
  "(string \<Rightarrow> (nat \<times> nat \<times> nat) option) \<Rightarrow> shows_state \<Rightarrow> bool" where
  "shows_inv to_datetime st \<longleftrightarrow>
     show_keys st = identity_key to_datetime ` fst ` set (original_show_key_to_id_map st) \<and>
     map show_key (shows_data st) =
       map (identity_key to_datetime) (map fst (original_show_key_to_id_map st)) \<and>
     map snd (original_show_key_to_id_map st) = map show_id (shows_data st) \<and>
     map show_id (shows_data st) = [1 ..< show_id_counter st] \<and>
     0 < show_id_counter st"

text \<open>
  Example rows: the same show with the date written in two ways, and the same show with
  the venue written in two casings.
\<close>

definition respelled_date_rows :: "setlist_row list" where
  "respelled_date_rows =
     [blank_row\<lparr>date := ''08/15/1975'', venue := ''The Bottom Line'', tour := ''1975 Tour'',
                song := ''Thunder Road'', position := ''1''\<rparr>,
      blank_row\<lparr>date := ''8/15/1975'', venue := ''The Bottom Line'', tour := ''1975 Tour'',
                song := ''Thunder Road'', position := ''2''\<rparr>]"

definition recased_venue_rows :: "setlist_row list" where
  "recased_venue_rows =
     [blank_row\<lparr>date := ''08/15/1975'', venue := ''The Bottom Line'', tour := ''1975 Tour'',
                song := ''Thunder Road'', position := ''1''\<rparr>,
      blank_row\<lparr>date := ''08/15/1975'', venue := '' THE BOTTOM LINE '', tour := ''1975 Tour'',
                song := ''Thunder Road'', position := ''2''\<rparr>]"

text \<open>The numbers whose \<^verbatim>\<open>int\<close> is not negative (and the values that give no number).\<close>

definition nonneg_numeric :: "numeric \<Rightarrow> bool" where
  "nonneg_numeric x = (case x of IntVal n \<Rightarrow> 0 \<le> n | FloatVal q \<Rightarrow> - 1 < q | _ \<Rightarrow> True)"

text \<open>Example rows: a negative position and a position that is no number.\<close>

definition negative_position_rows :: "setlist_row list" where
  "negative_position_rows =
     [blank_row\<lparr>date := ''08/15/1975'', venue := ''The Bottom Line'', tour := ''1975 Tour'',
                song := ''Thunder Road'', position := ''-3''\<rparr>,
      blank_row\<lparr>date := ''08/15/1975'', venue := ''The Bottom Line'', tour := ''1975 Tour'',
                song := ''Thunder Road'', position := ''encore''\<rparr>]"

text \<open>
  A reading of \<^verbatim>\<open>pd.to_numeric\<close> that also knows the cell \<^verbatim>\<open>inf\<close>, which pandas reads
  as the float infinity, and a row with this cell.
\<close>

definition to_numeric_inf :: "string \<Rightarrow> numeric" where
  "to_numeric_inf s = (if s = ''inf'' then Infinity else to_numeric_literal s)"

definition infinite_position_rows :: "setlist_row list" where
  "infinite_position_rows =
     [blank_row\<lparr>date := ''08/15/1975'', venue := ''The Bottom Line'', tour := ''1975 Tour'',
                song := ''Thunder Road'', position := ''inf''\<rparr>]"

text \<open>
  A row reaches the position step (line 285) with the show id \<open>sid\<close> and the song id \<open>g\<close>
  when it passes the checks of lines 252 to 280: its stripped date and venue are in the
  show mapping with a show id that is not 0, its stripped title is not empty and has a
  word, and the song chosen for its words is an id that is not 0. \<open>row_reaches\<close> is the
  same with the show mapping, the two ids of the contextual check and the tour map as
  \<^verbatim>\<open>create_shows_setlists_tables\<close> computes them.
\<close>

definition reaches_position_step ::
  "((string \<times> string) \<times> nat) list \<Rightarrow> nat option \<Rightarrow> nat option \<Rightarrow> (nat \<times> string) list \<Rightarrow>
     matching_map \<Rightarrow> setlist_row \<Rightarrow> nat \<Rightarrow> nat \<Rightarrow> bool" where
  "reaches_position_step final_show_mapping standard_bitusa_id reunion_bitusa_id
       show_id_to_tour_map canonical_matching_map row sid g \<longleftrightarrow>
     map_of final_show_mapping (strip (date row), strip (venue row)) = Some sid \<and> sid \<noteq> 0 \<and>
     strip (song row) \<noteq> [] \<and>
     preprocess_title_for_matching (Some (strip (song row))) \<noteq> [] \<and>
     fst (select_song standard_bitusa_id reunion_bitusa_id show_id_to_tour_map
            canonical_matching_map sid
            (preprocess_title_for_matching (Some (strip (song row))))) = Some g \<and>
     g \<noteq> 0"

definition row_reaches ::
  "(string \<Rightarrow> (nat \<times> nat \<times> nat) option) \<Rightarrow> setlist_row list \<Rightarrow> matching_map \<Rightarrow> setlist_row \<Rightarrow>
     nat \<Rightarrow> nat \<Rightarrow> bool" where
  "row_reaches to_datetime setlists_input_df canonical_matching_map row sid g \<longleftrightarrow>
     reaches_position_step
       (original_show_key_to_id_map (resolve_shows to_datetime setlists_input_df))
       (fst (find_bitusa_ids canonical_matching_map (None, None)))
       (snd (find_bitusa_ids canonical_matching_map (None, None)))
       (map (\<lambda>s. (show_id s, show_tour s)) (shows_data (resolve_shows to_datetime setlists_input_df)))
       canonical_matching_map row sid g"

text \<open>
  The key of a setlist entry (show, song, position), and what holds of the state of the
  second loop after every row: the set of keys is that of the entries.
\<close>

definition entry_key :: "setlist_entry \<Rightarrow> nat \<times> nat \<times> int" where
  "entry_key e = (entry_show_id e, entry_song_id e, entry_position e)"

definition keys_inv :: "setlists_state \<Rightarrow> bool" where
  "keys_inv st \<longleftrightarrow> setlist_keys st = entry_key ` set (setlists st)"


definition sequence_match :: "string list \<Rightarrow> matching_map \<Rightarrow> nat option \<times> string" where
  "sequence_match raw_title_words idx =
     (find_match_by_sequence raw_title_words idx,
      if truthy (find_match_by_sequence raw_title_words idx)
      then ''Sequence Match (Success)'' else ''Sequence Match (Fail)'')"



section \<open>The sequence matcher\<close>

lemma subseq_Cons_dropWhile:
  "subseq (c # cs) h \<longleftrightarrow>
     (case dropWhile (\<lambda>x. x \<noteq> c) h of [] \<Rightarrow> False | _ # rest \<Rightarrow> subseq cs rest)"
  by (induction h) auto

lemma is_subsequence_subseq: "is_subsequence needle haystack = subseq needle haystack"
proof (induction needle arbitrary: haystack)
  case Nil
  show ?case by simp
next
  case (Cons c needle)
  have "is_subsequence (c # needle) haystack =
      (case dropWhile (\<lambda>x. x \<noteq> c) haystack of [] \<Rightarrow> False | _ # rest \<Rightarrow> subseq needle rest)"
    by (simp only: is_subsequence.simps Cons.IH cong: list.case_cong)
  also have "\<dots> = subseq (c # needle) haystack"
    by (rule subseq_Cons_dropWhile [symmetric])
  finally show ?case .
qed

lemma sort_key_first:
  assumes "sort_key f xs = m # rest"
  shows "\<exists>us vs. xs = us @ m # vs \<and> (\<forall>u\<in>set us. f u \<noteq> f m) \<and> (\<forall>x\<in>set xs. f m \<le> f x)"
proof -
  have "filter (\<lambda>y. f y = f m) xs = filter (\<lambda>y. f y = f m) (sort_key f xs)"
    by (simp add: sort_key_stable)
  also have "\<dots> = m # filter (\<lambda>y. f y = f m) rest"
    by (simp add: assms)
  finally obtain us vs where d: "xs = us @ m # vs" "\<forall>u\<in>set us. f u \<noteq> f m"
    by (auto simp: filter_eq_Cons_iff)
  have "sorted (map f (sort_key f xs))" by simp
  then have "\<forall>x\<in>set rest. f m \<le> f x" by (simp add: assms)
  moreover have "set xs = set (m # rest)" using assms by (metis set_sort)
  ultimately have "\<forall>x\<in>set xs. f m \<le> f x" by auto
  with d show ?thesis by blast
qed

lemma sort_key_Nil_iff: "sort_key f xs = [] \<longleftrightarrow> xs = []"
  by (metis length_sort length_0_conv)

lemma fm_None:
  "find_match_by_sequence q idx = None \<longleftrightarrow> \<not> (\<exists>e\<in>set idx. candidate q e)"
proof (cases "q = []")
  case True
  then show ?thesis by (auto simp: find_match_by_sequence_def candidate_def)
next
  case False
  let ?ms = "map (\<lambda>(song_id, canonical_words). (length canonical_words, song_id))
                (filter (\<lambda>(song_id, canonical_words).
                           canonical_words \<noteq> [] \<and> is_subsequence canonical_words q) idx)"
  have "find_match_by_sequence q idx = None \<longleftrightarrow> sort_key (\<lambda>x. - int (fst x)) ?ms = []"
    using False by (simp add: find_match_by_sequence_def split: list.split)
  also have "\<dots> \<longleftrightarrow> ?ms = []" by (rule sort_key_Nil_iff)
  also have "\<dots> \<longleftrightarrow> \<not> (\<exists>e\<in>set idx. candidate q e)"
    by (auto simp: candidate_def is_subsequence_subseq filter_empty_conv)
  finally show ?thesis .
qed

lemma filter_eq_append_Cons:
  "filter P xs = as @ b # cs \<Longrightarrow>
     \<exists>us vs. xs = us @ b # vs \<and> filter P us = as \<and> P b \<and> filter P vs = cs"
proof (induction xs arbitrary: as)
  case Nil
  then show ?case by simp
next
  case (Cons x xs)
  show ?case
  proof (cases "P x")
    case False
    with Cons.prems have "filter P xs = as @ b # cs" by simp
    from Cons.IH [OF this] obtain us vs where
      "xs = us @ b # vs" "filter P us = as" "P b" "filter P vs = cs" by blast
    with False have "x # xs = (x # us) @ b # vs \<and> filter P (x # us) = as \<and> P b \<and> filter P vs = cs"
      by simp
    then show ?thesis by blast
  next
    case True
    show ?thesis
    proof (cases as)
      case Nil
      with True Cons.prems have "x # xs = [] @ b # xs \<and> filter P [] = as \<and> P b \<and> filter P xs = cs"
        by simp
      then show ?thesis by blast
    next
      case (Cons a as')
      with True Cons.prems have xa: "x = a" and "filter P xs = as' @ b # cs" by simp_all
      from Cons.IH [OF this(2)] obtain us vs where
        "xs = us @ b # vs" "filter P us = as'" "P b" "filter P vs = cs" by blast
      with True xa Cons have "x # xs = (x # us) @ b # vs \<and> filter P (x # us) = as \<and> P b \<and> filter P vs = cs"
        by simp
      then show ?thesis by blast
    qed
  qed
qed

lemma fm_Some:
  assumes "find_match_by_sequence q idx = Some i"
  shows "\<exists>us ws vs. idx = us @ (i, ws) # vs \<and> candidate q (i, ws) \<and>
           (\<forall>e\<in>set idx. candidate q e \<longrightarrow> length (snd e) \<le> length ws) \<and>
           (\<forall>e\<in>set us. candidate q e \<longrightarrow> length (snd e) < length ws)"
proof -
  let ?P = "\<lambda>(song_id, canonical_words). canonical_words \<noteq> [] \<and> is_subsequence canonical_words q"
  let ?g = "\<lambda>(song_id :: nat, canonical_words :: string list). (length canonical_words, song_id)"
  let ?f = "\<lambda>x :: nat \<times> nat. - int (fst x)"
  have Pc: "?P e = candidate q e" for e
    by (cases e) (simp add: candidate_def is_subsequence_subseq)
  from assms obtain m rest where
    srt: "sort_key ?f (map ?g (filter ?P idx)) = m # rest" and mi: "snd m = i"
    by (auto simp: find_match_by_sequence_def split: if_splits list.splits)
  from sort_key_first [OF srt] obtain ms1 ms2 where
    dec: "map ?g (filter ?P idx) = ms1 @ m # ms2" and
    fst1: "\<forall>u\<in>set ms1. ?f u \<noteq> ?f m" and
    least: "\<forall>x\<in>set (map ?g (filter ?P idx)). ?f m \<le> ?f x"
    by blast
  from dec obtain c1 e c2 where
    cdec: "filter ?P idx = c1 @ e # c2" and c1: "map ?g c1 = ms1" and e: "?g e = m"
    by (auto simp: map_eq_append_conv map_eq_Cons_conv)
  from filter_eq_append_Cons [OF cdec] obtain us vs where
    idec: "idx = us @ e # vs" and fus: "filter ?P us = c1" and Pe: "?P e"
    by blast
  obtain j ws where ejw: "e = (j, ws)" by (cases e)
  with e mi have ji: "j = i" and mlen: "fst m = length ws" by auto
  have le: "length (snd x) \<le> length ws" if "x \<in> set idx" "candidate q x" for x
  proof -
    from that have "?g x \<in> set (map ?g (filter ?P idx))" by (simp add: Pc)
    with least have "?f m \<le> ?f (?g x)" by blast
    then show ?thesis using mlen by (cases x) simp
  qed
  have lt: "length (snd x) < length ws" if "x \<in> set us" "candidate q x" for x
  proof -
    from that have "x \<in> set c1" using fus Pc by auto
    then have "?g x \<in> set ms1" using c1 by auto
    with fst1 have "?f (?g x) \<noteq> ?f m" by blast
    moreover have "x \<in> set idx" using that idec by simp
    from le [OF this that(2)] have "length (snd x) \<le> length ws" .
    ultimately show ?thesis using mlen by (cases x) simp
  qed
  from Pe have "candidate q (i, ws)" using ejw ji Pc [of e] by simp
  with idec ejw ji le lt show ?thesis by blast
qed

section \<open>The batch and its input files\<close>

lemma save_tables_fields:
  "songs_output_file (save_tables to_csv_fails (songs_t, shows_t, setlists_t) fs) =
     (if to_csv_fails SongsCsv then songs_output_file fs else Some songs_t)"
  "shows_output_file (save_tables to_csv_fails (songs_t, shows_t, setlists_t) fs) =
     (if to_csv_fails SongsCsv \<or> to_csv_fails ShowsCsv then shows_output_file fs else Some shows_t)"
  "setlists_output_file (save_tables to_csv_fails (songs_t, shows_t, setlists_t) fs) =
     (if to_csv_fails SongsCsv \<or> to_csv_fails ShowsCsv \<or> to_csv_fails SetlistsCsv
      then setlists_output_file fs else Some setlists_t)"
  "songs_sessions_file (save_tables to_csv_fails (songs_t, shows_t, setlists_t) fs) =
     songs_sessions_file fs"
  "setlists_raw_file (save_tables to_csv_fails (songs_t, shows_t, setlists_t) fs) =
     setlists_raw_file fs"
  by (simp_all add: save_tables_def Let_def)

lemma returned_run:
  assumes "fst (normalize_database_schema set_iter to_datetime to_numeric to_csv_fails fs) = Returned"
  shows "\<exists>sessions rows tables.
           songs_sessions_file fs = Loaded sessions \<and> setlists_raw_file fs = Loaded rows \<and>
           normalize_tables set_iter to_datetime to_numeric sessions rows = Inr tables \<and>
           snd (normalize_database_schema set_iter to_datetime to_numeric to_csv_fails fs) =
             save_tables to_csv_fails tables fs"
  using assms
  by (auto simp: normalize_database_schema_def split: input_file.splits sum.splits if_splits)

text \<open>
  Claim C9, as the code has it. When the sessions file or the raw setlists file is missing,
  the batch exits with the file-not-found message and the file system is left as it was:
  none of the three outputs is written. Every run that does not return normally (an exit,
  or an exception of one of the two table functions) leaves the file system as it was. A
  run that returns has built the three tables from the two loaded inputs and has written
  them in the order songs, shows, setlists up to the first write that raised: each output
  file holds its new table when no write up to its own raised, and is as it was before
  otherwise. So the three outputs are those of one computation when no write raises, and
  a part of them is new when a later write raises.
\<close>

theorem outputs_written_up_to_first_failed_write:
  "(songs_sessions_file fs = Missing \<or> setlists_raw_file fs = Missing \<longrightarrow>
      (normalize_database_schema set_iter to_datetime to_numeric to_csv_fails fs =
         (SysExit SessionsFileNotFound, fs) \<or>
       normalize_database_schema set_iter to_datetime to_numeric to_csv_fails fs =
         (SysExit SetlistsFileNotFound, fs))) \<and>
   (fst (normalize_database_schema set_iter to_datetime to_numeric to_csv_fails fs) \<noteq> Returned \<longrightarrow>
      snd (normalize_database_schema set_iter to_datetime to_numeric to_csv_fails fs) = fs) \<and>
   (fst (normalize_database_schema set_iter to_datetime to_numeric to_csv_fails fs) = Returned \<longrightarrow>
      (\<exists>sessions rows songs_t shows_t setlists_t.
         songs_sessions_file fs = Loaded sessions \<and> setlists_raw_file fs = Loaded rows \<and>
         normalize_tables set_iter to_datetime to_numeric sessions rows =
           Inr (songs_t, shows_t, setlists_t) \<and>
         songs_output_file
             (snd (normalize_database_schema set_iter to_datetime to_numeric to_csv_fails fs)) =
           (if to_csv_fails SongsCsv then songs_output_file fs else Some songs_t) \<and>
         shows_output_file
             (snd (normalize_database_schema set_iter to_datetime to_numeric to_csv_fails fs)) =
           (if to_csv_fails SongsCsv \<or> to_csv_fails ShowsCsv then shows_output_file fs
            else Some shows_t) \<and>
         setlists_output_file
             (snd (normalize_database_schema set_iter to_datetime to_numeric to_csv_fails fs)) =
           (if to_csv_fails SongsCsv \<or> to_csv_fails ShowsCsv \<or> to_csv_fails SetlistsCsv
            then setlists_output_file fs else Some setlists_t) \<and>
         songs_sessions_file
             (snd (normalize_database_schema set_iter to_datetime to_numeric to_csv_fails fs)) =
           songs_sessions_file fs \<and>
         setlists_raw_file
             (snd (normalize_database_schema set_iter to_datetime to_numeric to_csv_fails fs)) =
           setlists_raw_file fs))"
proof (intro conjI impI)
  assume "songs_sessions_file fs = Missing \<or> setlists_raw_file fs = Missing"
  then show "normalize_database_schema set_iter to_datetime to_numeric to_csv_fails fs =
         (SysExit SessionsFileNotFound, fs) \<or>
       normalize_database_schema set_iter to_datetime to_numeric to_csv_fails fs =
         (SysExit SetlistsFileNotFound, fs)"
    by (auto simp: normalize_database_schema_def)
next
  assume "fst (normalize_database_schema set_iter to_datetime to_numeric to_csv_fails fs) \<noteq> Returned"
  then show "snd (normalize_database_schema set_iter to_datetime to_numeric to_csv_fails fs) = fs"
    by (auto simp: normalize_database_schema_def split: input_file.splits sum.splits if_splits)
next
  assume "fst (normalize_database_schema set_iter to_datetime to_numeric to_csv_fails fs) = Returned"
  from returned_run [OF this] obtain sessions rows tables where
    l: "songs_sessions_file fs = Loaded sessions" "setlists_raw_file fs = Loaded rows" and
    t: "normalize_tables set_iter to_datetime to_numeric sessions rows = Inr tables" and
    s: "snd (normalize_database_schema set_iter to_datetime to_numeric to_csv_fails fs) =
          save_tables to_csv_fails tables fs"
    by blast
  obtain songs_t shows_t setlists_t where tb: "tables = (songs_t, shows_t, setlists_t)"
    by (cases tables)
  show "\<exists>sessions rows songs_t shows_t setlists_t.
         songs_sessions_file fs = Loaded sessions \<and> setlists_raw_file fs = Loaded rows \<and>
         normalize_tables set_iter to_datetime to_numeric sessions rows =
           Inr (songs_t, shows_t, setlists_t) \<and>
         songs_output_file
             (snd (normalize_database_schema set_iter to_datetime to_numeric to_csv_fails fs)) =
           (if to_csv_fails SongsCsv then songs_output_file fs else Some songs_t) \<and>
         shows_output_file
             (snd (normalize_database_schema set_iter to_datetime to_numeric to_csv_fails fs)) =
           (if to_csv_fails SongsCsv \<or> to_csv_fails ShowsCsv then shows_output_file fs
            else Some shows_t) \<and>
         setlists_output_file
             (snd (normalize_database_schema set_iter to_datetime to_numeric to_csv_fails fs)) =
           (if to_csv_fails SongsCsv \<or> to_csv_fails ShowsCsv \<or> to_csv_fails SetlistsCsv
            then setlists_output_file fs else Some setlists_t) \<and>
         songs_sessions_file
             (snd (normalize_database_schema set_iter to_datetime to_numeric to_csv_fails fs)) =
           songs_sessions_file fs \<and>
         setlists_raw_file
             (snd (normalize_database_schema set_iter to_datetime to_numeric to_csv_fails fs)) =
           setlists_raw_file fs"
    using l t unfolding s tb save_tables_fields by blast
qed

lemma example_tables:
  "normalize_tables (\<lambda>g. g) to_datetime_mdy to_numeric_literal example_sessions example_setlist =
     Inr ([\<lparr>title = ''Thunder Road'', album = ''Born To Run'', is_outtake = 0, song_id = 1\<rparr>,
           \<lparr>title = ''B'', album = ''Cover'', is_outtake = 0, song_id = 2\<rparr>,
           \<lparr>title = ''A'', album = ''Cover'', is_outtake = 0, song_id = 3\<rparr>],
          [\<lparr>show_id = 1, show_date = Some ''1975-08-15'', show_tour = ''1975 Tour'',
            show_venue = ''The Bottom Line'', show_city = ''Unknown City'', state_name = None,
            state_code = None, country_name = None, country_code = None, show_notes = None\<rparr>],
          [\<lparr>setlist_entry_id = 1, entry_show_id = 1, entry_song_id = 2, entry_position = 1,
            entry_notes = []\<rparr>,
           \<lparr>setlist_entry_id = 2, entry_show_id = 1, entry_song_id = 1, entry_position = 2,
            entry_notes = []\<rparr>,
           \<lparr>setlist_entry_id = 3, entry_show_id = 1, entry_song_id = 3, entry_position = 3,
            entry_notes = []\<rparr>])"
  by code_simp

lemma loaded_files_run:
  "normalize_database_schema (\<lambda>g. g) to_datetime_mdy to_numeric_literal shows_write_fails
       loaded_files =
     (Returned,
      loaded_files\<lparr>songs_output_file :=
        Some [\<lparr>title = ''Thunder Road'', album = ''Born To Run'', is_outtake = 0, song_id = 1\<rparr>,
              \<lparr>title = ''B'', album = ''Cover'', is_outtake = 0, song_id = 2\<rparr>,
              \<lparr>title = ''A'', album = ''Cover'', is_outtake = 0, song_id = 3\<rparr>]\<rparr>)"
  by (simp add: normalize_database_schema_def loaded_files_def example_tables save_tables_def
        shows_write_fails_def)

text \<open>
  C9 fails in the save step: both inputs are there, the write of the shows table raises,
  the exception is logged and the batch returns; the songs table is written, the shows
  and setlists are not.
\<close>

theorem failed_write_leaves_partial_outputs:
  "songs_sessions_file loaded_files \<noteq> Missing \<and> setlists_raw_file loaded_files \<noteq> Missing \<and>
   shows_write_fails ShowsCsv \<and>
   fst (normalize_database_schema (\<lambda>g. g) to_datetime_mdy to_numeric_literal shows_write_fails
          loaded_files) = Returned \<and>
   songs_output_file
       (snd (normalize_database_schema (\<lambda>g. g) to_datetime_mdy to_numeric_literal
               shows_write_fails loaded_files)) =
     Some [\<lparr>title = ''Thunder Road'', album = ''Born To Run'', is_outtake = 0, song_id = 1\<rparr>,
           \<lparr>title = ''B'', album = ''Cover'', is_outtake = 0, song_id = 2\<rparr>,
           \<lparr>title = ''A'', album = ''Cover'', is_outtake = 0, song_id = 3\<rparr>] \<and>
   shows_output_file
       (snd (normalize_database_schema (\<lambda>g. g) to_datetime_mdy to_numeric_literal
               shows_write_fails loaded_files)) = None \<and>
   setlists_output_file
       (snd (normalize_database_schema (\<lambda>g. g) to_datetime_mdy to_numeric_literal
               shows_write_fails loaded_files)) = None"
  by (simp add: loaded_files_run) (simp add: loaded_files_def shows_write_fails_def)

theorem outputs_written_up_to_first_failed_write_witness:
  "setlists_raw_file example_files = Missing \<and>
   normalize_database_schema (\<lambda>g. g) to_datetime_mdy to_numeric_literal (\<lambda>n. False) example_files =
     (SysExit SetlistsFileNotFound, example_files) \<and>
   fst (normalize_database_schema (\<lambda>g. g) to_datetime_mdy to_numeric_literal shows_write_fails
          loaded_files) = Returned \<and>
   (\<exists>songs_t. songs_output_file
       (snd (normalize_database_schema (\<lambda>g. g) to_datetime_mdy to_numeric_literal
               shows_write_fails loaded_files)) = Some songs_t) \<and>
   shows_output_file
       (snd (normalize_database_schema (\<lambda>g. g) to_datetime_mdy to_numeric_literal
               shows_write_fails loaded_files)) = None \<and>
   setlists_output_file
       (snd (normalize_database_schema (\<lambda>g. g) to_datetime_mdy to_numeric_literal
               shows_write_fails loaded_files)) = None"
proof -
  have m: "setlists_raw_file example_files = Missing" by (simp add: example_files_def)
  have n: "songs_sessions_file example_files \<noteq> Missing" by (simp add: example_files_def)
  note th1 = outputs_written_up_to_first_failed_write
    [of example_files "\<lambda>g. g" to_datetime_mdy to_numeric_literal "\<lambda>n. False"]
  note th2 = outputs_written_up_to_first_failed_write
    [of loaded_files "\<lambda>g. g" to_datetime_mdy to_numeric_literal shows_write_fails]
  from th1 m
  have "normalize_database_schema (\<lambda>g. g) to_datetime_mdy to_numeric_literal (\<lambda>n. False) example_files =
         (SysExit SessionsFileNotFound, example_files) \<or>
       normalize_database_schema (\<lambda>g. g) to_datetime_mdy to_numeric_literal (\<lambda>n. False) example_files =
         (SysExit SetlistsFileNotFound, example_files)" by blast
  moreover have "normalize_database_schema (\<lambda>g. g) to_datetime_mdy to_numeric_literal (\<lambda>n. False) example_files \<noteq>
         (SysExit SessionsFileNotFound, example_files)"
    using n by (simp add: normalize_database_schema_def m)
  ultimately have r: "normalize_database_schema (\<lambda>g. g) to_datetime_mdy to_numeric_literal (\<lambda>n. False) example_files =
         (SysExit SetlistsFileNotFound, example_files)" by blast
  have ret: "fst (normalize_database_schema (\<lambda>g. g) to_datetime_mdy to_numeric_literal
      shows_write_fails loaded_files) = Returned"
    by (simp add: loaded_files_run)
  have fl: "\<not> shows_write_fails SongsCsv" "shows_write_fails ShowsCsv"
    "shows_output_file loaded_files = None" "setlists_output_file loaded_files = None"
    by (simp_all add: shows_write_fails_def loaded_files_def)
  from th2 ret obtain songs_t shows_t setlists_t where
    a: "songs_output_file
          (snd (normalize_database_schema (\<lambda>g. g) to_datetime_mdy to_numeric_literal
                  shows_write_fails loaded_files)) =
        (if shows_write_fails SongsCsv then songs_output_file loaded_files else Some songs_t)" and
    b: "shows_output_file
          (snd (normalize_database_schema (\<lambda>g. g) to_datetime_mdy to_numeric_literal
                  shows_write_fails loaded_files)) =
        (if shows_write_fails SongsCsv \<or> shows_write_fails ShowsCsv
         then shows_output_file loaded_files else Some shows_t)" and
    c: "setlists_output_file
          (snd (normalize_database_schema (\<lambda>g. g) to_datetime_mdy to_numeric_literal
                  shows_write_fails loaded_files)) =
        (if shows_write_fails SongsCsv \<or> shows_write_fails ShowsCsv \<or> shows_write_fails SetlistsCsv
         then setlists_output_file loaded_files else Some setlists_t)"
    by blast
  from a b c fl ret m r show ?thesis by simp
qed

section \<open>Titles and album labels of the catalog\<close>

text \<open>
  Claim C10 at the input that breaks it. A session row whose session cell is the empty
  string (what \<^verbatim>\<open>read_csv(keep_default_na=False)\<close> gives for an empty cell, and what
  \<^verbatim>\<open>row.get('session', '')\<close> gives for a missing column) gets the empty album label:
  \<^verbatim>\<open>get_album_from_session\<close> maps only a cell that \<^verbatim>\<open>pd.isna\<close> accepts to
  \<^verbatim>\<open>"Unknown"\<close>.
\<close>

theorem empty_session_gives_empty_album:
  "get_album_from_session (Some '''') = '''' \<and>
   create_final_songs_table id
     [\<lparr>session = Some '''', session_type = ''Album'', session_song = Some ''Thunder Road''\<rparr>] [] =
     Inr ([\<lparr>title = ''Thunder Road'', album = '''', is_outtake = 0, song_id = 1\<rparr>],
          [(1, [''thunder'', ''road''])])"
  by code_simp

section \<open>The song catalog\<close>

lemma get_canonical_display_title_nonempty: "get_canonical_display_title t \<noteq> []"
  by (auto simp: get_canonical_display_title_def Let_def split: option.splits)

lemma ddf_set: "set (map key (drop_duplicates_from key seen xs)) = key ` set xs - seen"
  by (induction xs arbitrary: seen) auto

lemma ddf_distinct: "distinct (map key (drop_duplicates_from key seen xs))"
  by (induction xs arbitrary: seen) (auto simp: ddf_set [simplified])

lemma ddf_id: "distinct (map key xs) \<Longrightarrow> key ` set xs \<inter> seen = {} \<Longrightarrow> drop_duplicates_from key seen xs = xs"
  by (induction xs arbitrary: seen) auto

lemma ddf_subset: "set (drop_duplicates_from key seen xs) \<subseteq> set xs"
  by (induction xs arbitrary: seen) auto

lemma ddf_map: "map key (drop_duplicates_from key seen xs) = drop_duplicates_from (\<lambda>k. k) seen (map key xs)"
  by (induction xs arbitrary: seen) auto

lemma is_missing_tokens: "is_missing c \<Longrightarrow> preprocess_title_for_matching c = []"
  by (auto simp: is_missing_def preprocess_title_for_matching_def split: option.splits)

lemma session_step_cases:
  "session_step row (A, seen) =
     (if stok row = [] \<or> stok row \<in> seen then (A, seen)
      else (A @ [\<lparr>title = get_canonical_display_title (session_song row),
                   album = get_album_from_session (session row),
                   is_outtake = (if lower (session_type row) = ''outtake'' then 1 else 0),
                   processed_words = stok row\<rparr>],
            insert (stok row) seen))"
  by (auto simp: session_step_def stok_def Let_def is_missing_tokens get_canonical_display_title_nonempty)

lemma sessions_loop_words:
  "seen = set (map processed_words A) \<Longrightarrow>
   map processed_words (fst (sessions_loop rows (A, seen))) =
     map processed_words A @ drop_duplicates_from (\<lambda>k. k) seen (filter (\<lambda>w. w \<noteq> []) (map stok rows))"
proof (induction rows arbitrary: A seen)
  case Nil
  then show ?case by simp
next
  case (Cons row rows)
  show ?case
  proof (cases "stok row = [] \<or> stok row \<in> seen")
    case True
    then show ?thesis using Cons.IH [OF Cons.prems] by (auto simp: session_step_cases)
  next
    case False
    let ?e = "\<lparr>title = get_canonical_display_title (session_song row),
                   album = get_album_from_session (session row),
                   is_outtake = (if lower (session_type row) = ''outtake'' then 1 else 0),
                   processed_words = stok row\<rparr>"
    have "insert (stok row) seen = set (map processed_words (A @ [?e]))"
      using Cons.prems by simp
    from Cons.IH [OF this] False show ?thesis by (simp add: session_step_cases)
  qed
qed

lemma add_title_keys:
  "map fst (add_title k t m) = (if k \<in> fst ` set m then map fst m else map fst m @ [k])"
  by (auto simp: add_title_def split: prod.splits)

lemma add_title_key_set: "fst ` set (add_title k t m) = insert k (fst ` set m)"
proof -
  have "set (map fst (add_title k t m)) = insert k (set (map fst m))"
    unfolding add_title_keys by auto
  then show ?thesis by simp
qed

lemma add_title_titles:
  "titles_of (add_title k t m) k' = titles_of m k' \<union> (if k' = k then {t} else {})"
  by (auto simp: add_title_def titles_of_def split: if_splits)

lemma missing_step_cases:
  "missing_step known t m =
     (if stl_tok t \<noteq> [] \<and> stl_tok t \<notin> known then add_title (stl_tok t) t m else m)"
  by (auto simp: missing_step_def stl_tok_def Let_def preprocess_title_for_matching_def)

lemma missing_loop_keys:
  "map fst (missing_loop known ts m) =
     map fst m @ drop_duplicates_from (\<lambda>k. k) (set (map fst m))
                  (filter (\<lambda>k. k \<noteq> [] \<and> k \<notin> known) (map stl_tok ts))"
proof (induction ts arbitrary: m)
  case Nil
  show ?case by simp
next
  case (Cons t ts)
  show ?case
    by (simp add: Cons.IH missing_step_cases add_title_keys add_title_key_set insert_absorb)
qed

lemma missing_loop_titles:
  "titles_of (missing_loop known ts m) k =
     titles_of m k \<union> {t \<in> set ts. stl_tok t = k \<and> k \<noteq> [] \<and> k \<notin> known}"
proof (induction ts arbitrary: m)
  case Nil
  show ?case by simp
next
  case (Cons t ts)
  show ?case
    by (auto simp: Cons.IH missing_step_cases add_title_titles)
qed

lemma foldl_shortest:
  "foldl (\<lambda>best y. if length y < length best then y else best) b xs \<in> set (b # xs) \<and>
   (\<forall>x\<in>set (b # xs). length (foldl (\<lambda>best y. if length y < length best then y else best) b xs) \<le> length x)"
proof (induction xs arbitrary: b)
  case Nil
  show ?case by simp
next
  case (Cons a xs)
  let ?b' = "if length a < length b then a else b"
  from Cons.IH [of ?b'] show ?case by (auto split: if_splits)
qed

lemma min_by_len_Some:
  "min_by_len xs = Some r \<Longrightarrow> r \<in> set xs \<and> (\<forall>x\<in>set xs. length r \<le> length x)"
  using foldl_shortest by (cases xs) auto

lemma min_by_len_None: "min_by_len xs = None \<longleftrightarrow> xs = []"
  by (cases xs) auto

lemma covers_loop_result:
  "covers_loop set_iter m acc = Inr res \<Longrightarrow>
     \<exists>new. res = acc @ new \<and> list_all2 (cover_of set_iter) m new"
proof (induction m arbitrary: acc)
  case Nil
  then show ?case by simp
next
  case (Cons kg m)
  obtain k g where kg: "kg = (k, g)" by (cases kg)
  from Cons.prems kg obtain rep where rep: "min_by_len (set_iter g) = Some rep"
    by (cases "min_by_len (set_iter g)") auto
  let ?e = "\<lparr>title = get_canonical_display_title (Some rep), album = ''Cover'', is_outtake = 0,
             processed_words = k\<rparr>"
  from Cons.prems kg rep have "covers_loop set_iter m (acc @ [?e]) = Inr res"
    by (simp add: get_canonical_display_title_nonempty)
  from Cons.IH [OF this] obtain new where
    new: "res = (acc @ [?e]) @ new" "list_all2 (cover_of set_iter) m new" by blast
  have "cover_of set_iter kg ?e" using kg rep by (simp add: cover_of_def)
  with new have "res = acc @ (?e # new) \<and> list_all2 (cover_of set_iter) (kg # m) (?e # new)"
    by simp
  then show ?case by blast
qed

lemma covers_loop_total:
  "\<forall>kg\<in>set m. set_iter (snd kg) \<noteq> [] \<Longrightarrow> \<exists>res. covers_loop set_iter m acc = Inr res"
proof (induction m arbitrary: acc)
  case Nil
  show ?case by simp
next
  case (Cons kg m)
  obtain k g where kg: "kg = (k, g)" by (cases kg)
  with Cons.prems have "set_iter g \<noteq> []" by simp
  then obtain rep where "min_by_len (set_iter g) = Some rep"
    by (cases "min_by_len (set_iter g)") (auto simp: min_by_len_None)
  with Cons.IH Cons.prems kg show ?case
    by (simp add: get_canonical_display_title_nonempty)
qed

lemma ddf_set_id: "set (drop_duplicates_from (\<lambda>k. k) seen xs) = set xs - seen"
  using ddf_set [of "\<lambda>k. k" seen xs] by simp

lemma ddf_distinct_id: "distinct (drop_duplicates_from (\<lambda>k. k) seen xs)"
  using ddf_distinct [of "\<lambda>k. k" seen xs] by simp

lemma ddf_of_ddf:
  "f ` T \<subseteq> K \<union> {k. \<not> P k} \<Longrightarrow>
   drop_duplicates_from (\<lambda>k. k) K (filter P (map f (drop_duplicates_from (\<lambda>k. k) T ts))) =
   drop_duplicates_from (\<lambda>k. k) K (filter P (map f ts))"
proof (induction ts arbitrary: T K)
  case Nil
  show ?case by simp
next
  case (Cons t ts)
  show ?case
  proof (cases "t \<in> T")
    case True
    with Cons.prems have "\<not> P (f t) \<or> f t \<in> K" by auto
    with True Cons.IH [OF Cons.prems] show ?thesis by auto
  next
    case False
    show ?thesis
    proof (cases "P (f t) \<and> f t \<notin> K")
      case True
      from Cons.prems have "f ` insert t T \<subseteq> insert (f t) K \<union> {k. \<not> P k}" by auto
      from Cons.IH [OF this] True False show ?thesis by simp
    next
      case nk: False
      with Cons.prems have "f ` insert t T \<subseteq> K \<union> {k. \<not> P k}" by auto
      from Cons.IH [OF this] nk False show ?thesis by auto
    qed
  qed
qed

lemma titles_of_Nil: "titles_of [] k = {}"
  by (simp add: titles_of_def)

lemma titles_of_unique:
  "distinct (map fst m) \<Longrightarrow> (k, g) \<in> set m \<Longrightarrow> titles_of m k = set g"
  by (auto simp: titles_of_def dest: eq_key_imp_eq_value)

lemma session_tokens_keys: "set (session_keys S) = session_tokens S - {[]}"
  by (auto simp: session_keys_def session_tokens_def drop_duplicates_def ddf_set_id)

lemma missing_map_facts:
  assumes M: "M = missing_loop (session_tokens S - {[]}) (drop_duplicates (\<lambda>t. t) (map song L)) []"
  shows "map fst M = cover_keys S L"
    and "\<forall>kg\<in>set M. set (snd kg) = raw_titles L (fst kg) \<and> snd kg \<noteq> []"
proof -
  define U where "U = drop_duplicates (\<lambda>t. t) (map song L)"
  have "map fst M =
      drop_duplicates_from (\<lambda>k. k) {}
        (filter (\<lambda>k. k \<noteq> [] \<and> k \<notin> session_tokens S - {[]})
           (map stl_tok (drop_duplicates_from (\<lambda>k. k) {} (map song L))))"
    unfolding M drop_duplicates_def by (simp add: missing_loop_keys)
  also have "\<dots> = drop_duplicates_from (\<lambda>k. k) {}
        (filter (\<lambda>k. k \<noteq> [] \<and> k \<notin> session_tokens S - {[]}) (map stl_tok (map song L)))"
    by (rule ddf_of_ddf) simp
  also have "\<dots> = cover_keys S L"
  proof -
    have "(\<lambda>k. k \<noteq> [] \<and> k \<notin> session_tokens S - {[]}) = (\<lambda>k. k \<noteq> [] \<and> k \<notin> session_tokens S)"
      by auto
    then show ?thesis by (simp add: cover_keys_def drop_duplicates_def comp_def)
  qed
  finally show Mk: "map fst M = cover_keys S L" .
  have dM: "distinct (map fst M)"
    unfolding Mk cover_keys_def drop_duplicates_def by (rule ddf_distinct_id)
  have setU: "set U = song ` set L"
    by (simp add: U_def drop_duplicates_def ddf_set_id)
  have grp: "set (snd kg) = raw_titles L (fst kg) \<and> snd kg \<noteq> []" if "kg \<in> set M" for kg
  proof -
    obtain k g where kg: "kg = (k, g)" by (cases kg)
    with that have "k \<in> set (cover_keys S L)" using Mk by (metis fst_conv image_eqI set_map)
    then have k: "k \<noteq> []" "k \<notin> session_tokens S" "k \<in> stl_tok ` song ` set L"
      by (auto simp: cover_keys_def drop_duplicates_def ddf_set_id)
    have "set g = titles_of M k" using titles_of_unique [OF dM] that kg by simp
    also have "\<dots> = {t \<in> set U. stl_tok t = k \<and> k \<noteq> [] \<and> k \<notin> session_tokens S - {[]}}"
      unfolding M U_def [symmetric] by (simp add: missing_loop_titles titles_of_Nil)
    also have "\<dots> = raw_titles L k" using k setU by (auto simp: raw_titles_def)
    finally have sg: "set g = raw_titles L k" .
    moreover from k(3) have "raw_titles L k \<noteq> {}" by (auto simp: raw_titles_def)
    ultimately show ?thesis using kg by auto
  qed
  then show "\<forall>kg\<in>set M. set (snd kg) = raw_titles L (fst kg) \<and> snd kg \<noteq> []" by blast
qed

lemma session_songs_words:
  "map processed_words (fst (sessions_loop S ([], {}))) = session_keys S"
  using sessions_loop_words [of "{}" "[]" S]
  by (simp add: session_keys_def drop_duplicates_def)

lemma create_final_songs_table_unfold:
  "create_final_songs_table set_iter S L =
     (let A = fst (sessions_loop S ([], {}));
          M = missing_loop (session_tokens S - {[]}) (drop_duplicates (\<lambda>t. t) (map song L)) []
      in if A = [] then Inl KeyError
         else case covers_loop set_iter M [] of
                Inl e \<Rightarrow> Inl e
              | Inr N \<Rightarrow>
                  Inr (map (\<lambda>(i, e). \<lparr>title = title e, album = album e, is_outtake = is_outtake e,
                                       song_id = i\<rparr>)
                         (zip [1 ..< length (drop_duplicates processed_words (A @ N)) + 1]
                              (drop_duplicates processed_words (A @ N))),
                       zip [1 ..< length (drop_duplicates processed_words (A @ N)) + 1]
                           (map processed_words (drop_duplicates processed_words (A @ N)))))"
proof -
  have "set (map processed_words (fst (sessions_loop S ([], {})))) = session_tokens S - {[]}"
    by (simp only: session_songs_words session_tokens_keys)
  then show ?thesis
    unfolding create_final_songs_table_def Let_def by (simp only:)
qed

lemma builder_structure:
  assumes res: "create_final_songs_table set_iter S L = Inr (songs, idx)"
  shows "\<exists>A M N. A \<noteq> [] \<and> map processed_words A = session_keys S \<and>
           map fst M = cover_keys S L \<and> (\<forall>kg\<in>set M. set (snd kg) = raw_titles L (fst kg)) \<and>
           list_all2 (cover_of set_iter) M N \<and>
           idx = zip [1 ..< length (A @ N) + 1] (map processed_words (A @ N)) \<and>
           songs = map (\<lambda>(i, e). \<lparr>title = title e, album = album e, is_outtake = is_outtake e,
                                    song_id = i\<rparr>) (zip [1 ..< length (A @ N) + 1] (A @ N))"
proof -
  define A where "A = fst (sessions_loop S ([], {}))"
  define M where "M = missing_loop (session_tokens S - {[]}) (drop_duplicates (\<lambda>t. t) (map song L)) []"
  define F where "F = (\<lambda>N.
      (map (\<lambda>(i, e). \<lparr>title = title e, album = album e, is_outtake = is_outtake e, song_id = i\<rparr>)
         (zip [1 ..< length (drop_duplicates processed_words (A @ N)) + 1]
              (drop_duplicates processed_words (A @ N))),
       zip [1 ..< length (drop_duplicates processed_words (A @ N)) + 1]
           (map processed_words (drop_duplicates processed_words (A @ N)))))"
  have eq: "create_final_songs_table set_iter S L =
      (if A = [] then Inl KeyError
       else case covers_loop set_iter M [] of Inl e \<Rightarrow> Inl e | Inr N \<Rightarrow> Inr (F N))"
    unfolding create_final_songs_table_unfold Let_def A_def M_def F_def by (rule refl)
  from res eq have A: "A \<noteq> []" by (cases "A = []") simp_all
  from res eq A obtain N where N: "covers_loop set_iter M [] = Inr N" and FN: "F N = (songs, idx)"
    by (cases "covers_loop set_iter M []") simp_all
  from FN have fin: "idx = zip [1 ..< length (drop_duplicates processed_words (A @ N)) + 1]
                      (map processed_words (drop_duplicates processed_words (A @ N)))"
             "songs = map (\<lambda>(i, e). \<lparr>title = title e, album = album e, is_outtake = is_outtake e,
                                    song_id = i\<rparr>)
                        (zip [1 ..< length (drop_duplicates processed_words (A @ N)) + 1]
                             (drop_duplicates processed_words (A @ N)))"
    unfolding F_def by blast+
  have Ak: "map processed_words A = session_keys S"
    unfolding A_def by (rule session_songs_words)
  from missing_map_facts [OF M_def] have Mk: "map fst M = cover_keys S L"
    and grp: "\<forall>kg\<in>set M. set (snd kg) = raw_titles L (fst kg)" by blast+
  from covers_loop_result [OF N] have NM: "list_all2 (cover_of set_iter) M N" by simp
  then have Nk: "map processed_words N = map fst M"
    by (induction rule: list_all2_induct) (auto simp: cover_of_def)
  have "distinct (map processed_words (A @ N))"
    using Ak Nk Mk session_tokens_keys [of S]
    by (auto simp: session_keys_def drop_duplicates_def ddf_distinct_id cover_keys_def ddf_set_id)
  then have "drop_duplicates processed_words (A @ N) = A @ N"
    unfolding drop_duplicates_def by (intro ddf_id) simp_all
  with fin have "idx = zip [1 ..< length (A @ N) + 1] (map processed_words (A @ N))"
    "songs = map (\<lambda>(i, e). \<lparr>title = title e, album = album e, is_outtake = is_outtake e,
                                    song_id = i\<rparr>) (zip [1 ..< length (A @ N) + 1] (A @ N))"
    by (simp_all only:)
  with A Ak Mk grp NM show ?thesis by blast
qed

lemma builder_total:
  assumes some: "session_tokens S - {[]} \<noteq> {}" and perm: "\<forall>g. set (set_iter g) = set g"
  shows "\<exists>songs idx. create_final_songs_table set_iter S L = Inr (songs, idx)"
proof -
  define A where "A = fst (sessions_loop S ([], {}))"
  define M where "M = missing_loop (session_tokens S - {[]}) (drop_duplicates (\<lambda>t. t) (map song L)) []"
  have "set (map processed_words A) \<noteq> {}"
    unfolding A_def session_songs_words session_tokens_keys by (rule some)
  then have A: "A \<noteq> []" by auto
  from missing_map_facts(2) [OF M_def] perm have "\<forall>kg\<in>set M. set_iter (snd kg) \<noteq> []"
    by (metis set_empty)
  from covers_loop_total [OF this] obtain N where "covers_loop set_iter M [] = Inr N" by blast
  with A show ?thesis
    unfolding create_final_songs_table_unfold Let_def A_def [symmetric] M_def [symmetric] by simp
qed

lemma keys_distinct: "distinct (session_keys S @ cover_keys S L)"
  using session_tokens_keys [of S]
  by (auto simp: session_keys_def drop_duplicates_def ddf_distinct_id cover_keys_def ddf_set_id)

lemma zip_ids_snd: "map snd (zip [1 ..< length xs + 1] xs) = xs"
  by (rule map_snd_zip) (simp del: upt_Suc)

lemma zip_ids_fst: "map fst (zip [1 ..< length xs + 1] xs) = [1 ..< length xs + 1]"
  by (rule map_fst_zip) (simp del: upt_Suc)

lemma zip_ids_nth: "j < length xs \<Longrightarrow> zip [1 ..< length xs + 1] xs ! j = (j + 1, xs ! j)"
  by (simp del: upt_Suc)

lemma catalog_shape:
  assumes res: "create_final_songs_table set_iter S L = Inr (songs, idx)"
  shows "map snd idx = session_keys S @ cover_keys S L"
    and "map fst idx = [1 ..< length idx + 1]"
    and "map song_id songs = [1 ..< length idx + 1]"
    and "session_keys S \<noteq> []"
proof -
  from builder_structure [OF res] obtain A M N where
    A: "A \<noteq> []" and Ak: "map processed_words A = session_keys S" and
    Mk: "map fst M = cover_keys S L" and NM: "list_all2 (cover_of set_iter) M N" and
    idx: "idx = zip [1 ..< length (A @ N) + 1] (map processed_words (A @ N))" and
    songs: "songs = map (\<lambda>(i, e). \<lparr>title = title e, album = album e, is_outtake = is_outtake e,
                                    song_id = i\<rparr>) (zip [1 ..< length (A @ N) + 1] (A @ N))"
    by blast
  from NM have Nk: "map processed_words N = map fst M"
    by (induction rule: list_all2_induct) (auto simp: cover_of_def)
  define P where "P = map processed_words (A @ N)"
  have idxP: "idx = zip [1 ..< length P + 1] P" unfolding idx P_def by (simp del: upt_Suc)
  have len: "length idx = length (A @ N)" unfolding idx by (simp del: upt_Suc)
  have lenP: "length P = length idx" unfolding len P_def by simp
  have "map snd idx = P" unfolding idxP by (rule zip_ids_snd)
  then show "map snd idx = session_keys S @ cover_keys S L"
    unfolding P_def using Ak Nk Mk by simp
  have "map fst idx = [1 ..< length P + 1]" unfolding idxP by (rule zip_ids_fst)
  then show "map fst idx = [1 ..< length idx + 1]" unfolding lenP .
  have "map song_id songs = map fst (zip [1 ..< length (A @ N) + 1] (A @ N))"
    unfolding songs by (simp add: case_prod_beta comp_def del: upt_Suc)
  also have "\<dots> = [1 ..< length (A @ N) + 1]" by (rule zip_ids_fst)
  finally show "map song_id songs = [1 ..< length idx + 1]" unfolding len .
  from A Ak show "session_keys S \<noteq> []" by auto
qed

text \<open>
  Claim C2. Whenever the catalog builder returns a songs table and a matching map: the
  word lists of the map are pairwise distinct; the song ids of the map and of the table
  are 1, 2, ..., n in this order; the first entries are the session songs, one for each
  non-empty word list of a session title in the order of its first row, and the entries
  after them are the covers found in the setlists. The builder does return when some
  session title has a word and the iteration of a set yields its elements.
\<close>

theorem catalog_tokens_distinct_ids_dense:
  "(\<forall>songs idx. create_final_songs_table set_iter S L = Inr (songs, idx) \<longrightarrow>
      distinct (map snd idx) \<and>
      map fst idx = [1 ..< length idx + 1] \<and>
      map song_id songs = [1 ..< length idx + 1] \<and>
      0 < length (session_keys S) \<and>
      map snd (take (length (session_keys S)) idx) = session_keys S \<and>
      map snd (drop (length (session_keys S)) idx) = cover_keys S L) \<and>
   (session_tokens S - {[]} \<noteq> {} \<and> (\<forall>g. set (set_iter g) = set g) \<longrightarrow>
      (\<exists>songs idx. create_final_songs_table set_iter S L = Inr (songs, idx)))"
proof (intro conjI allI impI)
  fix songs idx
  assume res: "create_final_songs_table set_iter S L = Inr (songs, idx)"
  note sh = catalog_shape [OF res]
  show "distinct (map snd idx)" unfolding sh(1) by (rule keys_distinct)
  show "map fst idx = [1 ..< length idx + 1]" by (rule sh(2))
  show "map song_id songs = [1 ..< length idx + 1]" by (rule sh(3))
  show "0 < length (session_keys S)" using sh(4) by simp
  have "take (length (session_keys S)) (map snd idx) = session_keys S" unfolding sh(1) by simp
  then show "map snd (take (length (session_keys S)) idx) = session_keys S" by (simp add: take_map)
  have "drop (length (session_keys S)) (map snd idx) = cover_keys S L" unfolding sh(1) by simp
  then show "map snd (drop (length (session_keys S)) idx) = cover_keys S L" by (simp add: drop_map)
next
  assume "session_tokens S - {[]} \<noteq> {} \<and> (\<forall>g. set (set_iter g) = set g)"
  then show "\<exists>songs idx. create_final_songs_table set_iter S L = Inr (songs, idx)"
    using builder_total by blast
qed

text \<open>
  Claim C5, as the code has it. The covers stand after the session songs, one for each
  non-empty word list of a raw setlist title that no session title has, in the order in
  which these word lists first occur in the raw setlist rows (the insertion order of the
  dict), not in the order of the word lists themselves. The cover of a word list has the
  album \<^verbatim>\<open>Cover\<close>, the outtake flag 0, the next song id, and the display title of a raw
  title with this word list that no other raw title with this word list is shorter than.
\<close>

theorem covers_grouped_in_first_appearance_order:
  assumes res: "create_final_songs_table set_iter S L = Inr (songs, idx)"
    and perm: "\<forall>g. set (set_iter g) = set g"
  shows "map snd (drop (length (session_keys S)) idx) = cover_keys S L \<and>
         length songs = length idx \<and>
         length idx = length (session_keys S) + length (cover_keys S L) \<and>
         (\<forall>i<length (cover_keys S L).
            album (songs ! (length (session_keys S) + i)) = ''Cover'' \<and>
            is_outtake (songs ! (length (session_keys S) + i)) = 0 \<and>
            song_id (songs ! (length (session_keys S) + i)) = length (session_keys S) + i + 1 \<and>
            (\<exists>rep\<in>raw_titles L (cover_keys S L ! i).
               title (songs ! (length (session_keys S) + i)) = get_canonical_display_title (Some rep) \<and>
               (\<forall>t\<in>raw_titles L (cover_keys S L ! i). length rep \<le> length t)))"
proof -
  from builder_structure [OF res] obtain A M N where
    Ak: "map processed_words A = session_keys S" and
    Mk: "map fst M = cover_keys S L" and
    grp: "\<forall>kg\<in>set M. set (snd kg) = raw_titles L (fst kg)" and
    NM: "list_all2 (cover_of set_iter) M N" and
    songs: "songs = map (\<lambda>(i, e). \<lparr>title = title e, album = album e, is_outtake = is_outtake e,
                                    song_id = i\<rparr>) (zip [1 ..< length (A @ N) + 1] (A @ N))"
    by blast
  note sh = catalog_shape [OF res]
  have lA: "length A = length (session_keys S)" using Ak by (metis length_map)
  have lM: "length M = length (cover_keys S L)" using Mk by (metis length_map)
  have lN: "length N = length M" using NM by (simp add: list_all2_lengthD)
  have lidx: "length idx = length (session_keys S) + length (cover_keys S L)"
    using sh(1) by (metis length_map length_append)
  have lsongs: "length songs = length (A @ N)" unfolding songs by (simp del: upt_Suc)
  have d: "map snd (drop (length (session_keys S)) idx) = cover_keys S L"
    using sh(1) by (simp add: drop_map [symmetric])
  have row: "album (songs ! (length (session_keys S) + i)) = ''Cover'' \<and>
            is_outtake (songs ! (length (session_keys S) + i)) = 0 \<and>
            song_id (songs ! (length (session_keys S) + i)) = length (session_keys S) + i + 1 \<and>
            (\<exists>rep\<in>raw_titles L (cover_keys S L ! i).
               title (songs ! (length (session_keys S) + i)) = get_canonical_display_title (Some rep) \<and>
               (\<forall>t\<in>raw_titles L (cover_keys S L ! i). length rep \<le> length t))"
    if i: "i < length (cover_keys S L)" for i
  proof -
    let ?j = "length (session_keys S) + i"
    have j: "?j < length (A @ N)" using i lA lM lN by simp
    have "songs ! ?j = (\<lambda>(i, e). \<lparr>title = title e, album = album e, is_outtake = is_outtake e,
                                    song_id = i\<rparr>) (zip [1 ..< length (A @ N) + 1] (A @ N) ! ?j)"
      unfolding songs using j by (simp del: upt_Suc)
    also have "zip [1 ..< length (A @ N) + 1] (A @ N) ! ?j = (?j + 1, (A @ N) ! ?j)"
      using j by (rule zip_ids_nth)
    also have "(A @ N) ! ?j = N ! i" using lA by (simp add: nth_append)
    finally have sj: "songs ! ?j = \<lparr>title = title (N ! i), album = album (N ! i),
                                   is_outtake = is_outtake (N ! i), song_id = ?j + 1\<rparr>"
      by simp
    from i lM have iM: "i < length M" by simp
    from NM iM have c: "cover_of set_iter (M ! i) (N ! i)" by (rule list_all2_nthD)
    then obtain rep where rep: "min_by_len (set_iter (snd (M ! i))) = Some rep"
      and t: "title (N ! i) = get_canonical_display_title (Some rep)"
      by (auto simp: cover_of_def)
    have k: "fst (M ! i) = cover_keys S L ! i" using Mk iM by (metis nth_map)
    have "set (set_iter (snd (M ! i))) = raw_titles L (cover_keys S L ! i)"
      using perm grp iM k by (metis nth_mem)
    with min_by_len_Some [OF rep] have "rep \<in> raw_titles L (cover_keys S L ! i)"
      "\<forall>t\<in>raw_titles L (cover_keys S L ! i). length rep \<le> length t" by auto
    with sj c t show ?thesis by (auto simp: cover_of_def)
  qed
  from d lsongs lidx lA lM lN row show ?thesis by simp
qed

lemma example_catalog:
  "create_final_songs_table (\<lambda>g. g) example_sessions example_setlist =
     Inr ([\<lparr>title = ''Thunder Road'', album = ''Born To Run'', is_outtake = 0, song_id = 1\<rparr>,
           \<lparr>title = ''B'', album = ''Cover'', is_outtake = 0, song_id = 2\<rparr>,
           \<lparr>title = ''A'', album = ''Cover'', is_outtake = 0, song_id = 3\<rparr>],
          [(1, [''thunder'', ''road'']), (2, [''b'']), (3, [''a''])])"
  by code_simp

lemma example_keys:
  "session_keys example_sessions = [[''thunder'', ''road'']]"
  "cover_keys example_sessions example_setlist = [[''b''], [''a'']]"
  by code_simp+

text \<open>
  C5 fails on the order of the covers: the raw title \<^verbatim>\<open>B\<close> occurs before \<^verbatim>\<open>A\<close>, so the
  cover with the words \<^verbatim>\<open>b\<close> gets the song id 2 and the one with the words \<^verbatim>\<open>a\<close> the
  song id 3, against the order of the keys.
\<close>

theorem covers_natural_order_counterexample:
  "create_final_songs_table (\<lambda>g. g) example_sessions example_setlist =
     Inr ([\<lparr>title = ''Thunder Road'', album = ''Born To Run'', is_outtake = 0, song_id = 1\<rparr>,
           \<lparr>title = ''B'', album = ''Cover'', is_outtake = 0, song_id = 2\<rparr>,
           \<lparr>title = ''A'', album = ''Cover'', is_outtake = 0, song_id = 3\<rparr>],
          [(1, [''thunder'', ''road'']), (2, [''b'']), (3, [''a''])]) \<and>
   [''a''] < [''b''] \<and> \<not> sorted [[''b''], [''a'']]"
  by code_simp

theorem catalog_tokens_distinct_ids_dense_witness:
  "create_final_songs_table (\<lambda>g. g) example_sessions example_setlist =
     Inr ([\<lparr>title = ''Thunder Road'', album = ''Born To Run'', is_outtake = 0, song_id = 1\<rparr>,
           \<lparr>title = ''B'', album = ''Cover'', is_outtake = 0, song_id = 2\<rparr>,
           \<lparr>title = ''A'', album = ''Cover'', is_outtake = 0, song_id = 3\<rparr>],
          [(1, [''thunder'', ''road'']), (2, [''b'']), (3, [''a''])]) \<and>
   distinct (map snd [(1 :: nat, [''thunder'', ''road'']), (2, [''b'']), (3, [''a''])]) \<and>
   map snd (take (length (session_keys example_sessions))
              [(1 :: nat, [''thunder'', ''road'']), (2, [''b'']), (3, [''a''])]) =
     session_keys example_sessions \<and>
   map snd (drop (length (session_keys example_sessions))
              [(1 :: nat, [''thunder'', ''road'']), (2, [''b'']), (3, [''a''])]) =
     cover_keys example_sessions example_setlist \<and>
   session_tokens example_sessions - {[]} \<noteq> {}"
proof -
  have "session_tokens example_sessions - {[]} \<noteq> {}"
    using session_tokens_keys [of example_sessions] example_keys(1) by auto
  with catalog_tokens_distinct_ids_dense [of "\<lambda>g. g" example_sessions example_setlist]
    example_catalog
  show ?thesis by blast
qed

theorem covers_grouped_in_first_appearance_order_witness:
  "create_final_songs_table (\<lambda>g. g) example_sessions example_setlist =
     Inr ([\<lparr>title = ''Thunder Road'', album = ''Born To Run'', is_outtake = 0, song_id = 1\<rparr>,
           \<lparr>title = ''B'', album = ''Cover'', is_outtake = 0, song_id = 2\<rparr>,
           \<lparr>title = ''A'', album = ''Cover'', is_outtake = 0, song_id = 3\<rparr>],
          [(1, [''thunder'', ''road'']), (2, [''b'']), (3, [''a''])]) \<and>
   map snd (drop (length (session_keys example_sessions))
              [(1 :: nat, [''thunder'', ''road'']), (2, [''b'']), (3, [''a''])]) =
     cover_keys example_sessions example_setlist \<and>
   cover_keys example_sessions example_setlist = [[''b''], [''a'']] \<and>
   (\<exists>rep\<in>raw_titles example_setlist [''b''].
      ''B'' = get_canonical_display_title (Some rep))"
proof -
  have perm: "\<forall>g :: string list. set ((\<lambda>g. g) g) = set g" by simp
  note th = covers_grouped_in_first_appearance_order [OF example_catalog perm]
  from th have d: "map snd (drop (length (session_keys example_sessions))
              [(1 :: nat, [''thunder'', ''road'']), (2, [''b'']), (3, [''a''])]) =
     cover_keys example_sessions example_setlist" by blast
  from th have "\<forall>i<length (cover_keys example_sessions example_setlist).
      (\<exists>rep\<in>raw_titles example_setlist (cover_keys example_sessions example_setlist ! i).
          title ([\<lparr>title = ''Thunder Road'', album = ''Born To Run'', is_outtake = 0, song_id = 1\<rparr>,
           \<lparr>title = ''B'', album = ''Cover'', is_outtake = 0, song_id = 2\<rparr>,
           \<lparr>title = ''A'', album = ''Cover'', is_outtake = 0, song_id = 3\<rparr>] !
             (length (session_keys example_sessions) + i)) = get_canonical_display_title (Some rep))"
    by blast
  moreover have "0 < length (cover_keys example_sessions example_setlist)"
    by (simp add: example_keys)
  ultimately have "\<exists>rep\<in>raw_titles example_setlist (cover_keys example_sessions example_setlist ! 0).
          title ([\<lparr>title = ''Thunder Road'', album = ''Born To Run'', is_outtake = 0, song_id = 1\<rparr>,
           \<lparr>title = ''B'', album = ''Cover'', is_outtake = 0, song_id = 2\<rparr>,
           \<lparr>title = ''A'', album = ''Cover'', is_outtake = 0, song_id = 3\<rparr>] !
             (length (session_keys example_sessions) + 0)) = get_canonical_display_title (Some rep)"
    by blast
  then have "\<exists>rep\<in>raw_titles example_setlist [''b''].
      ''B'' = get_canonical_display_title (Some rep)"
    by (simp add: example_keys)
  with d example_catalog example_keys(2) show ?thesis by blast
qed

section \<open>Two runs over the same raw records\<close>

text \<open>
  The order in which Python iterates a set of strings depends on the hash seed of the
  process, so two runs may differ in \<open>set_iter\<close> and in nothing else. The matching map and
  the song ids do not depend on it.
\<close>

lemma matching_map_independent_of_set_order:
  assumes "create_final_songs_table it1 S L = Inr (songs1, idx1)"
    and "create_final_songs_table it2 S L = Inr (songs2, idx2)"
  shows "idx1 = idx2 \<and> map song_id songs1 = map song_id songs2"
proof -
  note a = catalog_shape [OF assms(1)] and b = catalog_shape [OF assms(2)]
  have l: "length idx1 = length idx2" using a(1) b(1) by (metis length_map)
  have "map fst idx1 = map fst idx2" unfolding a(2) b(2) l ..
  moreover have "map snd idx1 = map snd idx2" unfolding a(1) b(1) ..
  ultimately have "idx1 = idx2" by (metis zip_map_fst_snd)
  moreover have "map song_id songs1 = map song_id songs2" unfolding a(3) b(3) l ..
  ultimately show ?thesis by simp
qed

text \<open>
  Claim C7 at the input that breaks it. \<^verbatim>\<open>min(original_titles, key=len)\<close> reads a set;
  with the two raw titles \<^verbatim>\<open>Gloria*\<close> and \<^verbatim>\<open>Gloria,\<close> in one group, a run that
  iterates the set in one order and a run that iterates it in the other return different
  songs tables (the title of song 2), with the same ids, shows and setlist entries.
\<close>

theorem two_runs_differ_in_cover_title:
  "normalize_tables (\<lambda>g. g) to_datetime_mdy to_numeric_literal example_sessions gloria_setlist =
     Inr ([\<lparr>title = ''Thunder Road'', album = ''Born To Run'', is_outtake = 0, song_id = 1\<rparr>,
           \<lparr>title = ''Gloria*'', album = ''Cover'', is_outtake = 0, song_id = 2\<rparr>],
          [\<lparr>show_id = 1, show_date = Some ''1975-08-15'', show_tour = ''1975 Tour'',
            show_venue = ''The Bottom Line'', show_city = ''Unknown City'', state_name = None,
            state_code = None, country_name = None, country_code = None, show_notes = None\<rparr>],
          [\<lparr>setlist_entry_id = 1, entry_show_id = 1, entry_song_id = 2, entry_position = 1,
            entry_notes = ''''\<rparr>,
           \<lparr>setlist_entry_id = 2, entry_show_id = 1, entry_song_id = 2, entry_position = 2,
            entry_notes = ''''\<rparr>]) \<and>
   normalize_tables rev to_datetime_mdy to_numeric_literal example_sessions gloria_setlist =
     Inr ([\<lparr>title = ''Thunder Road'', album = ''Born To Run'', is_outtake = 0, song_id = 1\<rparr>,
           \<lparr>title = ''Gloria,'', album = ''Cover'', is_outtake = 0, song_id = 2\<rparr>],
          [\<lparr>show_id = 1, show_date = Some ''1975-08-15'', show_tour = ''1975 Tour'',
            show_venue = ''The Bottom Line'', show_city = ''Unknown City'', state_name = None,
            state_code = None, country_name = None, country_code = None, show_notes = None\<rparr>],
          [\<lparr>setlist_entry_id = 1, entry_show_id = 1, entry_song_id = 2, entry_position = 1,
            entry_notes = ''''\<rparr>,
           \<lparr>setlist_entry_id = 2, entry_show_id = 1, entry_song_id = 2, entry_position = 2,
            entry_notes = ''''\<rparr>])"
  by code_simp

section \<open>The show resolver\<close>

lemma show_step_skip:
  "\<not> valid_key (orig_key row) \<Longrightarrow> show_step to_datetime row st = st"
  by (auto simp: show_step_def orig_key_def valid_key_def Let_def)

lemma show_step_duplicate:
  "valid_key (orig_key row) \<Longrightarrow> identity_key to_datetime (orig_key row) \<in> show_keys st \<Longrightarrow>
   show_step to_datetime row st = st\<lparr>skipped_duplicate_shows := skipped_duplicate_shows st + 1\<rparr>"
  by (simp add: show_step_def orig_key_def valid_key_def identity_key_def Let_def)

lemma new_show_key:
  "valid_key (orig_key row) \<Longrightarrow>
   show_key (new_show to_datetime row c) = identity_key to_datetime (orig_key row)"
  by (simp add: new_show_def show_key_def identity_key_def orig_key_def valid_key_def Let_def)

lemma new_show_id: "show_id (new_show to_datetime row c) = c"
  by (simp add: new_show_def Let_def)

lemma show_step_mint:
  assumes "valid_key (orig_key row)" "identity_key to_datetime (orig_key row) \<notin> show_keys st"
  shows "show_step to_datetime row st =
             st\<lparr>shows_data := shows_data st @ [new_show to_datetime row (show_id_counter st)],
                show_keys := insert (identity_key to_datetime (orig_key row)) (show_keys st),
                original_show_key_to_id_map :=
                  (if map_of (original_show_key_to_id_map st) (orig_key row) = None
                   then original_show_key_to_id_map st @ [(orig_key row, show_id_counter st)]
                   else original_show_key_to_id_map st),
                show_id_counter := show_id_counter st + 1\<rparr>"
  using assms
  by (simp add: show_step_def orig_key_def valid_key_def identity_key_def Let_def)

lemma shows_loop_keys:
  "shows_inv to_datetime st \<Longrightarrow>
   shows_inv to_datetime (shows_loop to_datetime rows st) \<and>
   map fst (original_show_key_to_id_map (shows_loop to_datetime rows st)) =
     map fst (original_show_key_to_id_map st) @
     drop_duplicates_from (identity_key to_datetime) (show_keys st)
       (filter valid_key (map orig_key rows)) \<and>
   skipped_duplicate_shows (shows_loop to_datetime rows st) + length
     (drop_duplicates_from (identity_key to_datetime) (show_keys st)
       (filter valid_key (map orig_key rows))) =
     skipped_duplicate_shows st + length (filter valid_key (map orig_key rows))"
proof (induction rows arbitrary: st)
  case Nil
  then show ?case by simp
next
  case (Cons row rows)
  show ?case
  proof (cases "valid_key (orig_key row)")
    case False
    with Cons show ?thesis by (simp add: show_step_skip)
  next
    case True
    show ?thesis
    proof (cases "identity_key to_datetime (orig_key row) \<in> show_keys st")
      case dup: True
      let ?st = "st\<lparr>skipped_duplicate_shows := skipped_duplicate_shows st + 1\<rparr>"
      have "shows_inv to_datetime ?st" using Cons.prems by (simp add: shows_inv_def)
      from Cons.IH [OF this] True dup show ?thesis by (simp add: show_step_duplicate)
    next
      case new: False
      define s where "s = new_show to_datetime row (show_id_counter st)"
      have s: "show_id s = show_id_counter st"
           "show_key s = identity_key to_datetime (orig_key row)"
        unfolding s_def by (simp_all add: new_show_id new_show_key [OF True])
      have step: "show_step to_datetime row st =
             st\<lparr>shows_data := shows_data st @ [s],
                show_keys := insert (identity_key to_datetime (orig_key row)) (show_keys st),
                original_show_key_to_id_map :=
                  (if map_of (original_show_key_to_id_map st) (orig_key row) = None
                   then original_show_key_to_id_map st @ [(orig_key row, show_id_counter st)]
                   else original_show_key_to_id_map st),
                show_id_counter := show_id_counter st + 1\<rparr>"
        unfolding s_def by (rule show_step_mint [OF True new])
      from new Cons.prems have "orig_key row \<notin> fst ` set (original_show_key_to_id_map st)"
        by (auto simp: shows_inv_def)
      then have none: "map_of (original_show_key_to_id_map st) (orig_key row) = None"
        by (simp add: map_of_eq_None_iff)
      let ?st = "st\<lparr>shows_data := shows_data st @ [s],
                show_keys := insert (identity_key to_datetime (orig_key row)) (show_keys st),
                original_show_key_to_id_map :=
                  original_show_key_to_id_map st @ [(orig_key row, show_id_counter st)],
                show_id_counter := show_id_counter st + 1\<rparr>"
      from step none have step': "show_step to_datetime row st = ?st" by simp
      have "shows_inv to_datetime ?st"
        using Cons.prems s by (auto simp: shows_inv_def)
      from Cons.IH [OF this] True new show ?thesis by (simp add: step')
    qed
  qed
qed

lemma initial_inv: "shows_inv to_datetime initial_shows_state"
  by (simp add: shows_inv_def initial_shows_state_def)

lemma resolve_shows_facts:
  "map fst (original_show_key_to_id_map (resolve_shows to_datetime rows)) = minting_keys to_datetime rows"
  "map snd (original_show_key_to_id_map (resolve_shows to_datetime rows)) =
     map show_id (shows_data (resolve_shows to_datetime rows))"
  "map show_id (shows_data (resolve_shows to_datetime rows)) =
     [1 ..< length (shows_data (resolve_shows to_datetime rows)) + 1]"
  "map show_key (shows_data (resolve_shows to_datetime rows)) =
     map (identity_key to_datetime) (minting_keys to_datetime rows)"
  "skipped_duplicate_shows (resolve_shows to_datetime rows) + length (minting_keys to_datetime rows) =
     length (filter valid_key (map orig_key rows))"
proof -
  note l = shows_loop_keys [OF initial_inv, of to_datetime rows]
  from l show k: "map fst (original_show_key_to_id_map (resolve_shows to_datetime rows)) =
      minting_keys to_datetime rows"
    by (simp add: resolve_shows_def minting_keys_def drop_duplicates_def initial_shows_state_def)
  from l have inv: "shows_inv to_datetime (resolve_shows to_datetime rows)"
    by (simp add: resolve_shows_def)
  then show "map snd (original_show_key_to_id_map (resolve_shows to_datetime rows)) =
     map show_id (shows_data (resolve_shows to_datetime rows))"
    by (simp add: shows_inv_def)
  from inv have c: "map show_id (shows_data (resolve_shows to_datetime rows)) =
      [1 ..< show_id_counter (resolve_shows to_datetime rows)]"
    "0 < show_id_counter (resolve_shows to_datetime rows)"
    by (simp_all add: shows_inv_def)
  from c have "length (shows_data (resolve_shows to_datetime rows)) + 1 =
      show_id_counter (resolve_shows to_datetime rows)"
    by (metis Suc_eq_plus1 Suc_pred length_map length_upt diff_Suc_1 Suc_diff_1)
  with c show "map show_id (shows_data (resolve_shows to_datetime rows)) =
     [1 ..< length (shows_data (resolve_shows to_datetime rows)) + 1]" by simp
  from inv k show "map show_key (shows_data (resolve_shows to_datetime rows)) =
     map (identity_key to_datetime) (minting_keys to_datetime rows)"
    by (simp add: shows_inv_def)
  from l show "skipped_duplicate_shows (resolve_shows to_datetime rows) +
      length (minting_keys to_datetime rows) = length (filter valid_key (map orig_key rows))"
    by (simp add: resolve_shows_def minting_keys_def drop_duplicates_def initial_shows_state_def)
qed

lemma ddf_append:
  "drop_duplicates_from key seen (xs @ ys) =
     drop_duplicates_from key seen xs @ drop_duplicates_from key (seen \<union> key ` set xs) ys"
proof (induction xs arbitrary: seen)
  case Nil
  show ?case by simp
next
  case (Cons x xs)
  have "insert (key x) seen \<union> key ` set xs = seen \<union> key ` set (x # xs)" by auto
  moreover have "key x \<in> seen \<Longrightarrow> seen \<union> key ` set xs = seen \<union> key ` set (x # xs)" by auto
  ultimately show ?case using Cons.IH by auto
qed

lemma minting_keys_distinct: "distinct (map (identity_key to_datetime) (minting_keys to_datetime rows))"
  unfolding minting_keys_def drop_duplicates_def by (rule ddf_distinct)

lemma minting_keys_set:
  "identity_key to_datetime ` set (minting_keys to_datetime rows) =
     identity_key to_datetime ` {k \<in> orig_key ` set rows. valid_key k}"
  using ddf_set [of "identity_key to_datetime" "{}" "filter valid_key (map orig_key rows)"]
  by (simp add: minting_keys_def drop_duplicates_def)

lemma minting_keys_first:
  assumes "valid_key (orig_key r)"
    and "identity_key to_datetime (orig_key r) \<notin>
           identity_key to_datetime ` set (filter valid_key (map orig_key pre))"
  shows "\<exists>rest. minting_keys to_datetime (pre @ r # post) =
           minting_keys to_datetime pre @ orig_key r # rest"
  using assms
  by (simp add: minting_keys_def drop_duplicates_def ddf_append)

lemma map_of_nth_ids:
  assumes "distinct (map fst m)" "map snd m = [1 ..< length m + 1]" "i < length m"
  shows "map_of m (fst (m ! i)) = Some (i + 1)"
proof -
  have "m ! i \<in> set m" using assms(3) by simp
  moreover have "snd (m ! i) = [1 ..< length m + 1] ! i"
    using assms(2,3) by (metis nth_map)
  then have "snd (m ! i) = i + 1" using assms(3) by (simp del: upt_Suc)
  ultimately have "(fst (m ! i), i + 1) \<in> set m" by (metis prod.collapse)
  with assms(1) show ?thesis by (simp add: map_of_is_SomeI)
qed

lemma show_map_shape:
  "distinct (map fst (original_show_key_to_id_map (resolve_shows to_datetime rows)))"
  "map snd (original_show_key_to_id_map (resolve_shows to_datetime rows)) =
     [1 ..< length (original_show_key_to_id_map (resolve_shows to_datetime rows)) + 1]"
  "length (original_show_key_to_id_map (resolve_shows to_datetime rows)) =
     length (minting_keys to_datetime rows)"
  "length (shows_data (resolve_shows to_datetime rows)) = length (minting_keys to_datetime rows)"
proof -
  let ?st = "resolve_shows to_datetime rows"
  show "distinct (map fst (original_show_key_to_id_map ?st))"
    unfolding resolve_shows_facts(1)
    using minting_keys_distinct [of to_datetime rows] by (simp add: distinct_map)
  have l1: "length (original_show_key_to_id_map ?st) = length (minting_keys to_datetime rows)"
    using resolve_shows_facts(1) [of to_datetime rows] by (metis length_map)
  have l2: "length (shows_data ?st) = length (original_show_key_to_id_map ?st)"
    using resolve_shows_facts(2) [of to_datetime rows] by (metis length_map)
  show "map snd (original_show_key_to_id_map ?st) =
     [1 ..< length (original_show_key_to_id_map ?st) + 1]"
    using resolve_shows_facts(2,3) [of to_datetime rows] l2 by simp
  show "length (original_show_key_to_id_map ?st) = length (minting_keys to_datetime rows)" by (rule l1)
  show "length (shows_data ?st) = length (minting_keys to_datetime rows)" using l1 l2 by simp
qed

text \<open>
  Claim C4, as the code has it. A row whose identity key was seen before only raises the
  count of skipped duplicates: nothing is registered for it. The original-key map has one
  entry for each show, keyed by the stripped date and venue of the row that was the first
  of its identity key, with the ids 1, 2, ... in this order. So when a row is the first of
  its identity key, its own strings are linked to the show it mints, and the strings of a
  row with the same identity key and another spelling are not in the map.
\<close>

theorem duplicate_show_rows_register_nothing:
  "(valid_key (orig_key row) \<and> identity_key to_datetime (orig_key row) \<in> show_keys st \<longrightarrow>
      show_step to_datetime row st =
        st\<lparr>skipped_duplicate_shows := skipped_duplicate_shows st + 1\<rparr>) \<and>
   map fst (original_show_key_to_id_map (resolve_shows to_datetime rows)) =
     minting_keys to_datetime rows \<and>
   map snd (original_show_key_to_id_map (resolve_shows to_datetime rows)) =
     [1 ..< length (minting_keys to_datetime rows) + 1] \<and>
   length (shows_data (resolve_shows to_datetime rows)) = length (minting_keys to_datetime rows) \<and>
   (\<forall>pre r1 post r2.
      rows = pre @ r1 # post \<and> valid_key (orig_key r1) \<and>
      identity_key to_datetime (orig_key r1) \<notin>
        identity_key to_datetime ` set (filter valid_key (map orig_key pre)) \<and>
      identity_key to_datetime (orig_key r2) = identity_key to_datetime (orig_key r1) \<and>
      orig_key r2 \<noteq> orig_key r1 \<longrightarrow>
      map_of (original_show_key_to_id_map (resolve_shows to_datetime rows)) (orig_key r1) =
        Some (length (minting_keys to_datetime pre) + 1) \<and>
      map_of (original_show_key_to_id_map (resolve_shows to_datetime rows)) (orig_key r2) = None)"
proof (intro conjI allI impI)
  assume "valid_key (orig_key row) \<and> identity_key to_datetime (orig_key row) \<in> show_keys st"
  then show "show_step to_datetime row st =
        st\<lparr>skipped_duplicate_shows := skipped_duplicate_shows st + 1\<rparr>"
    by (simp add: show_step_duplicate)
next
  show "map fst (original_show_key_to_id_map (resolve_shows to_datetime rows)) =
     minting_keys to_datetime rows" by (rule resolve_shows_facts(1))
next
  show "map snd (original_show_key_to_id_map (resolve_shows to_datetime rows)) =
     [1 ..< length (minting_keys to_datetime rows) + 1]"
    using show_map_shape(2,3) [of to_datetime rows] by simp
next
  show "length (shows_data (resolve_shows to_datetime rows)) = length (minting_keys to_datetime rows)"
    by (rule show_map_shape(4))
next
  fix pre r1 post r2
  assume a: "rows = pre @ r1 # post \<and> valid_key (orig_key r1) \<and>
      identity_key to_datetime (orig_key r1) \<notin>
        identity_key to_datetime ` set (filter valid_key (map orig_key pre)) \<and>
      identity_key to_datetime (orig_key r2) = identity_key to_datetime (orig_key r1) \<and>
      orig_key r2 \<noteq> orig_key r1"
  let ?m = "original_show_key_to_id_map (resolve_shows to_datetime rows)"
  let ?i = "length (minting_keys to_datetime pre)"
  from a minting_keys_first [of r1 to_datetime pre post] obtain rest where
    mk: "minting_keys to_datetime rows = minting_keys to_datetime pre @ orig_key r1 # rest"
    by auto
  have fm: "map fst ?m = minting_keys to_datetime rows" by (rule resolve_shows_facts(1))
  have i: "?i < length ?m" using show_map_shape(3) [of to_datetime rows] mk by simp
  have "fst (?m ! ?i) = map fst ?m ! ?i" using i by simp
  also have "\<dots> = orig_key r1" unfolding fm mk by simp
  finally have f1: "fst (?m ! ?i) = orig_key r1" .
  from map_of_nth_ids [OF show_map_shape(1,2) i] f1
  have one: "map_of ?m (orig_key r1) = Some (?i + 1)" by simp
  have "orig_key r2 \<notin> set (minting_keys to_datetime rows)"
  proof
    assume in2: "orig_key r2 \<in> set (minting_keys to_datetime rows)"
    have in1: "orig_key r1 \<in> set (minting_keys to_datetime rows)" unfolding mk by simp
    from minting_keys_distinct [of to_datetime rows] in1 in2 a
    show False by (metis distinct_map inj_onD)
  qed
  then have two: "map_of ?m (orig_key r2) = None"
    using fm by (metis map_of_eq_None_iff set_map)
  from one two show
    "map_of ?m (orig_key r1) = Some (length (minting_keys to_datetime pre) + 1)" by simp
  from two show "map_of ?m (orig_key r2) = None" .
qed

lemma respelled_date_facts:
  "valid_key (orig_key (respelled_date_rows ! 0))"
  "identity_key to_datetime_mdy (orig_key (respelled_date_rows ! 1)) =
     identity_key to_datetime_mdy (orig_key (respelled_date_rows ! 0))"
  "orig_key (respelled_date_rows ! 1) \<noteq> orig_key (respelled_date_rows ! 0)"
  "orig_key (respelled_date_rows ! 0) = (''08/15/1975'', ''The Bottom Line'')"
  "orig_key (respelled_date_rows ! 1) = (''8/15/1975'', ''The Bottom Line'')"
  "respelled_date_rows = [] @ respelled_date_rows ! 0 # [respelled_date_rows ! 1]"
  "minting_keys to_datetime_mdy [] = []"
  by code_simp+

theorem duplicate_show_rows_register_nothing_witness:
  "valid_key (orig_key (respelled_date_rows ! 0)) \<and>
   identity_key to_datetime_mdy (orig_key (respelled_date_rows ! 1)) =
     identity_key to_datetime_mdy (orig_key (respelled_date_rows ! 0)) \<and>
   map_of (original_show_key_to_id_map (resolve_shows to_datetime_mdy respelled_date_rows))
     (''08/15/1975'', ''The Bottom Line'') = Some 1 \<and>
   map_of (original_show_key_to_id_map (resolve_shows to_datetime_mdy respelled_date_rows))
     (''8/15/1975'', ''The Bottom Line'') = None"
proof -
  note th = duplicate_show_rows_register_nothing
    [of "respelled_date_rows ! 1" to_datetime_mdy initial_shows_state respelled_date_rows]
  have "identity_key to_datetime_mdy (orig_key (respelled_date_rows ! 0)) \<notin>
      identity_key to_datetime_mdy ` set (filter valid_key (map orig_key []))" by simp
  with th respelled_date_facts(1,2,3,6)
  have "map_of (original_show_key_to_id_map (resolve_shows to_datetime_mdy respelled_date_rows))
          (orig_key (respelled_date_rows ! 0)) = Some (length (minting_keys to_datetime_mdy []) + 1) \<and>
        map_of (original_show_key_to_id_map (resolve_shows to_datetime_mdy respelled_date_rows))
          (orig_key (respelled_date_rows ! 1)) = None"
    by blast
  with respelled_date_facts show ?thesis by simp
qed

text \<open>
  C4 fails: the second row has the date of the first in another spelling. It is dropped
  as a duplicate, its strings are not in the map, and the linker drops its setlist entry.
\<close>

theorem duplicate_show_rows_counterexample:
  "original_show_key_to_id_map (resolve_shows to_datetime_mdy respelled_date_rows) =
     [((''08/15/1975'', ''The Bottom Line''), 1)] \<and>
   skipped_duplicate_shows (resolve_shows to_datetime_mdy respelled_date_rows) = 1 \<and>
   map_of (original_show_key_to_id_map (resolve_shows to_datetime_mdy respelled_date_rows))
     (strip (date (respelled_date_rows ! 1)), strip (venue (respelled_date_rows ! 1))) = None \<and>
   create_shows_setlists_tables to_datetime_mdy to_numeric_literal respelled_date_rows
       [(1, [''thunder'', ''road''])] =
     Inr ([\<lparr>show_id = 1, show_date = Some ''1975-08-15'', show_tour = ''1975 Tour'',
            show_venue = ''The Bottom Line'', show_city = ''Unknown City'', state_name = None,
            state_code = None, country_name = None, country_code = None, show_notes = None\<rparr>],
          [\<lparr>setlist_entry_id = 1, entry_show_id = 1, entry_song_id = 1, entry_position = 1,
            entry_notes = []\<rparr>])"
  by code_simp

lemma first_row_of_identity:
  assumes rows: "rows = pre @ r0 # post" and v: "valid_key (orig_key r0)"
    and first: "\<forall>p\<in>set pre. valid_key (orig_key p) \<longrightarrow>
                  identity_key to_datetime (orig_key p) \<noteq> identity_key to_datetime (orig_key r0)"
  shows "length (minting_keys to_datetime pre) < length (shows_data (resolve_shows to_datetime rows))"
    and "show_key (shows_data (resolve_shows to_datetime rows) ! length (minting_keys to_datetime pre)) =
           identity_key to_datetime (orig_key r0)"
    and "show_id (shows_data (resolve_shows to_datetime rows) ! length (minting_keys to_datetime pre)) =
           length (minting_keys to_datetime pre) + 1"
    and "map_of (original_show_key_to_id_map (resolve_shows to_datetime rows)) (orig_key r0) =
           Some (length (minting_keys to_datetime pre) + 1)"
    and "\<And>k. identity_key to_datetime k = identity_key to_datetime (orig_key r0) \<Longrightarrow>
           k \<noteq> orig_key r0 \<Longrightarrow>
           map_of (original_show_key_to_id_map (resolve_shows to_datetime rows)) k = None"
proof -
  let ?sh = "shows_data (resolve_shows to_datetime rows)"
  let ?m = "original_show_key_to_id_map (resolve_shows to_datetime rows)"
  let ?i = "length (minting_keys to_datetime pre)"
  from first have "identity_key to_datetime (orig_key r0) \<notin>
      identity_key to_datetime ` set (filter valid_key (map orig_key pre))"
    by auto
  from minting_keys_first [OF v this, of post] obtain rest where
    mk: "minting_keys to_datetime rows = minting_keys to_datetime pre @ orig_key r0 # rest"
    unfolding rows by blast
  have fm: "map fst ?m = minting_keys to_datetime rows" by (rule resolve_shows_facts(1))
  show i: "?i < length ?sh" using show_map_shape(4) [of to_datetime rows] mk by simp
  have im: "?i < length ?m" using show_map_shape(3) [of to_datetime rows] mk by simp
  have "show_key (?sh ! ?i) = map show_key ?sh ! ?i" using i by simp
  also have "\<dots> = identity_key to_datetime (orig_key r0)"
    unfolding resolve_shows_facts(4) mk by (simp add: nth_append)
  finally show "show_key (?sh ! ?i) = identity_key to_datetime (orig_key r0)" .
  have "show_id (?sh ! ?i) = map show_id ?sh ! ?i" using i by simp
  also have "\<dots> = [1 ..< length ?sh + 1] ! ?i" unfolding resolve_shows_facts(3) ..
  also have "\<dots> = ?i + 1" using i by (simp del: upt_Suc)
  finally show "show_id (?sh ! ?i) = ?i + 1" .
  have "fst (?m ! ?i) = map fst ?m ! ?i" using im by simp
  also have "\<dots> = orig_key r0" unfolding fm mk by simp
  finally have f1: "fst (?m ! ?i) = orig_key r0" .
  from map_of_nth_ids [OF show_map_shape(1,2) im] f1
  show "map_of ?m (orig_key r0) = Some (?i + 1)" by simp
  fix k
  assume same: "identity_key to_datetime k = identity_key to_datetime (orig_key r0)"
    and ne: "k \<noteq> orig_key r0"
  have "k \<notin> set (minting_keys to_datetime rows)"
  proof
    assume in2: "k \<in> set (minting_keys to_datetime rows)"
    have in1: "orig_key r0 \<in> set (minting_keys to_datetime rows)" unfolding mk by simp
    from minting_keys_distinct [of to_datetime rows] in1 in2 same ne
    show False by (metis distinct_map inj_onD)
  qed
  then show "map_of ?m k = None"
    using fm by (metis map_of_eq_None_iff set_map)
qed

lemma same_identity_same_venue:
  "identity_key to_datetime k = identity_key to_datetime k' \<Longrightarrow> (k = k' \<longleftrightarrow> fst k = fst k')"
  by (cases k; cases k') (auto simp: identity_key_def)

text \<open>
  Claim C3, as the code has it. Take two rows that pass line 165 and have the same
  identity key: the same normalized date and the same stripped venue, compared as they
  are written. The shows table has exactly one show with this key, its id is its place in
  the table, and the show was made from the first row of the input with this key. That
  first row is filed under the id of the show, and so is each of the two rows whose
  stripped date string is that of the first row; a row that writes the date otherwise is
  filed under no show. So the two rows are never filed under two different shows, and
  they are filed under the same show whenever both are filed.
\<close>

theorem rows_of_one_identity_share_one_show:
  assumes r1: "r1 \<in> set rows" and r2: "r2 \<in> set rows"
    and v1: "valid_key (orig_key r1)" and v2: "valid_key (orig_key r2)"
    and same: "identity_key to_datetime (orig_key r1) = identity_key to_datetime (orig_key r2)"
  shows "distinct (map show_key (shows_data (resolve_shows to_datetime rows))) \<and>
    (\<exists>i pre r0 post.
       i < length (shows_data (resolve_shows to_datetime rows)) \<and>
       show_key (shows_data (resolve_shows to_datetime rows) ! i) =
         identity_key to_datetime (orig_key r1) \<and>
       show_id (shows_data (resolve_shows to_datetime rows) ! i) = i + 1 \<and>
       (\<forall>j<length (shows_data (resolve_shows to_datetime rows)).
          show_key (shows_data (resolve_shows to_datetime rows) ! j) =
            identity_key to_datetime (orig_key r1) \<longrightarrow> j = i) \<and>
       rows = pre @ r0 # post \<and> valid_key (orig_key r0) \<and>
       identity_key to_datetime (orig_key r0) = identity_key to_datetime (orig_key r1) \<and>
       (\<forall>p\<in>set pre. valid_key (orig_key p) \<longrightarrow>
          identity_key to_datetime (orig_key p) \<noteq> identity_key to_datetime (orig_key r1)) \<and>
       show_id_of_row to_datetime rows r0 = Some (i + 1) \<and>
       show_id_of_row to_datetime rows r1 =
         (if strip (date r1) = strip (date r0) then Some (i + 1) else None) \<and>
       show_id_of_row to_datetime rows r2 =
         (if strip (date r2) = strip (date r0) then Some (i + 1) else None))"
proof
  let ?sh = "shows_data (resolve_shows to_datetime rows)"
  let ?K = "identity_key to_datetime (orig_key r1)"
  show d: "distinct (map show_key ?sh)"
    unfolding resolve_shows_facts(4) by (rule minting_keys_distinct)
  let ?P = "\<lambda>r. valid_key (orig_key r) \<and> identity_key to_datetime (orig_key r) = ?K"
  from r1 v1 have "\<exists>x\<in>set rows. ?P x" by blast
  from split_list_first_prop [OF this] obtain pre r0 post where
    rows: "rows = pre @ r0 # post" and P0: "?P r0" and pre: "\<forall>p\<in>set pre. \<not> ?P p"
    by blast
  from P0 have v0: "valid_key (orig_key r0)" and k0: "identity_key to_datetime (orig_key r0) = ?K"
    by blast+
  from pre have first: "\<forall>p\<in>set pre. valid_key (orig_key p) \<longrightarrow>
      identity_key to_datetime (orig_key p) \<noteq> identity_key to_datetime (orig_key r0)"
    unfolding k0 by blast
  from pre have first1: "\<forall>p\<in>set pre. valid_key (orig_key p) \<longrightarrow>
      identity_key to_datetime (orig_key p) \<noteq> ?K"
    by blast
  note f = first_row_of_identity [OF rows v0 first]
  let ?i = "length (minting_keys to_datetime pre)"
  have u: "j = ?i" if "j < length ?sh" "show_key (?sh ! j) = ?K" for j
  proof -
    from that f(1,2) k0 have "map show_key ?sh ! j = map show_key ?sh ! ?i" by simp
    moreover have "j < length (map show_key ?sh)" "?i < length (map show_key ?sh)"
      using that(1) f(1) by simp_all
    ultimately show ?thesis using d by (simp only: nth_eq_iff_index_eq)
  qed
  have link: "show_id_of_row to_datetime rows r =
      (if strip (date r) = strip (date r0) then Some (?i + 1) else None)"
    if "identity_key to_datetime (orig_key r) = ?K" for r
  proof -
    from that k0 have s: "identity_key to_datetime (orig_key r) = identity_key to_datetime (orig_key r0)"
      by simp
    from same_identity_same_venue [OF s]
    have e: "orig_key r = orig_key r0 \<longleftrightarrow> strip (date r) = strip (date r0)"
      by (simp add: orig_key_def)
    show ?thesis
    proof (cases "orig_key r = orig_key r0")
      case True
      with f(4) e show ?thesis by (simp add: show_id_of_row_def orig_key_def)
    next
      case False
      from f(5) [OF s False] e False show ?thesis
        by (simp add: show_id_of_row_def orig_key_def)
    qed
  qed
  have l0: "show_id_of_row to_datetime rows r0 = Some (?i + 1)" using link [OF k0] by simp
  have l1: "show_id_of_row to_datetime rows r1 =
      (if strip (date r1) = strip (date r0) then Some (?i + 1) else None)"
    by (rule link) simp
  have l2: "show_id_of_row to_datetime rows r2 =
      (if strip (date r2) = strip (date r0) then Some (?i + 1) else None)"
    by (rule link) (simp add: same)
  show "\<exists>i pre r0 post.
       i < length ?sh \<and> show_key (?sh ! i) = ?K \<and> show_id (?sh ! i) = i + 1 \<and>
       (\<forall>j<length ?sh. show_key (?sh ! j) = ?K \<longrightarrow> j = i) \<and>
       rows = pre @ r0 # post \<and> valid_key (orig_key r0) \<and>
       identity_key to_datetime (orig_key r0) = ?K \<and>
       (\<forall>p\<in>set pre. valid_key (orig_key p) \<longrightarrow> identity_key to_datetime (orig_key p) \<noteq> ?K) \<and>
       show_id_of_row to_datetime rows r0 = Some (i + 1) \<and>
       show_id_of_row to_datetime rows r1 =
         (if strip (date r1) = strip (date r0) then Some (i + 1) else None) \<and>
       show_id_of_row to_datetime rows r2 =
         (if strip (date r2) = strip (date r0) then Some (i + 1) else None)"
  proof (intro exI conjI)
    show "?i < length ?sh" by (rule f(1))
    show "show_key (?sh ! ?i) = ?K" using f(2) k0 by simp
    show "show_id (?sh ! ?i) = ?i + 1" by (rule f(3))
    show "\<forall>j<length ?sh. show_key (?sh ! j) = ?K \<longrightarrow> j = ?i" using u by blast
    show "rows = pre @ r0 # post" by (rule rows)
    show "valid_key (orig_key r0)" by (rule v0)
    show "identity_key to_datetime (orig_key r0) = ?K" by (rule k0)
    show "\<forall>p\<in>set pre. valid_key (orig_key p) \<longrightarrow> identity_key to_datetime (orig_key p) \<noteq> ?K"
      by (rule first1)
    show "show_id_of_row to_datetime rows r0 = Some (?i + 1)" by (rule l0)
    show "show_id_of_row to_datetime rows r1 =
      (if strip (date r1) = strip (date r0) then Some (?i + 1) else None)" by (rule l1)
    show "show_id_of_row to_datetime rows r2 =
      (if strip (date r2) = strip (date r0) then Some (?i + 1) else None)" by (rule l2)
  qed
qed

lemma example_setlist_facts:
  "example_setlist ! 0 \<in> set example_setlist"
  "example_setlist ! 1 \<in> set example_setlist"
  "valid_key (orig_key (example_setlist ! 0))"
  "valid_key (orig_key (example_setlist ! 1))"
  "identity_key to_datetime_mdy (orig_key (example_setlist ! 0)) =
     identity_key to_datetime_mdy (orig_key (example_setlist ! 1))"
  "length (shows_data (resolve_shows to_datetime_mdy example_setlist)) = 1"
  "\<forall>r\<in>set example_setlist. strip (date r) = ''08/15/1975''"
  by code_simp+

theorem rows_of_one_identity_share_one_show_witness:
  "example_setlist ! 0 \<in> set example_setlist \<and> example_setlist ! 1 \<in> set example_setlist \<and>
   valid_key (orig_key (example_setlist ! 0)) \<and> valid_key (orig_key (example_setlist ! 1)) \<and>
   identity_key to_datetime_mdy (orig_key (example_setlist ! 0)) =
     identity_key to_datetime_mdy (orig_key (example_setlist ! 1)) \<and>
   show_id_of_row to_datetime_mdy example_setlist (example_setlist ! 0) = Some 1 \<and>
   show_id_of_row to_datetime_mdy example_setlist (example_setlist ! 1) = Some 1"
proof -
  note f = example_setlist_facts
  from rows_of_one_identity_share_one_show [OF f(1) f(2) f(3) f(4) f(5)]
  obtain i pre r0 post where
    i: "i < length (shows_data (resolve_shows to_datetime_mdy example_setlist))" and
    rows: "example_setlist = pre @ r0 # post" and
    l1: "show_id_of_row to_datetime_mdy example_setlist (example_setlist ! 0) =
      (if strip (date (example_setlist ! 0)) = strip (date r0) then Some (i + 1) else None)" and
    l2: "show_id_of_row to_datetime_mdy example_setlist (example_setlist ! 1) =
      (if strip (date (example_setlist ! 1)) = strip (date r0) then Some (i + 1) else None)"
    by blast
  from i f(6) have i0: "i = 0" by simp
  have "r0 \<in> set example_setlist" by (subst rows) simp
  with f(7) have d0: "strip (date r0) = ''08/15/1975''" by blast
  from f(1) f(7) have d1: "strip (date (example_setlist ! 0)) = ''08/15/1975''" by blast
  from f(2) f(7) have d2: "strip (date (example_setlist ! 1)) = ''08/15/1975''" by blast
  from l1 l2 show ?thesis unfolding d0 d1 d2 i0 using f by simp
qed

text \<open>
  C3 fails on casing: two rows of the same date whose venues differ in casing only (and in
  surrounding white space) give two shows and are filed under different show ids. It also
  fails for two rows of one show that write the date in two ways: the second is filed
  under no show.
\<close>

theorem same_show_id_counterexample:
  "lower (strip (venue (recased_venue_rows ! 0))) = lower (strip (venue (recased_venue_rows ! 1))) \<and>
   to_datetime_mdy (strip (date (recased_venue_rows ! 0))) =
     to_datetime_mdy (strip (date (recased_venue_rows ! 1))) \<and>
   map (\<lambda>s. (show_id s, show_date s, show_venue s))
       (shows_data (resolve_shows to_datetime_mdy recased_venue_rows)) =
     [(1, Some ''1975-08-15'', ''The Bottom Line''), (2, Some ''1975-08-15'', ''THE BOTTOM LINE'')] \<and>
   show_id_of_row to_datetime_mdy recased_venue_rows (recased_venue_rows ! 0) = Some 1 \<and>
   show_id_of_row to_datetime_mdy recased_venue_rows (recased_venue_rows ! 1) = Some 2 \<and>
   identity_key to_datetime_mdy (orig_key (respelled_date_rows ! 0)) =
     identity_key to_datetime_mdy (orig_key (respelled_date_rows ! 1)) \<and>
   show_id_of_row to_datetime_mdy respelled_date_rows (respelled_date_rows ! 0) = Some 1 \<and>
   show_id_of_row to_datetime_mdy respelled_date_rows (respelled_date_rows ! 1) = None"
  by code_simp

section \<open>The position of a setlist entry\<close>

lemma setlist_step_reached:
  assumes "reaches_position_step fm std reu tm idx row sid g"
  shows "setlist_step to_numeric fm std reu tm idx row st =
     (case parse_position to_numeric (position row) of
        Inl e \<Rightarrow> Inl e
      | Inr pos \<Rightarrow>
          (let st1 = count_method
                 (snd (select_song std reu tm idx sid
                         (preprocess_title_for_matching (Some (strip (song row)))))) st
           in if (sid, g, pos) \<in> setlist_keys st
              then Inr (st1\<lparr>duplicate_setlist_entries_skipped :=
                               duplicate_setlist_entries_skipped st + 1\<rparr>)
              else Inr (st1\<lparr>setlists := setlists st @
                                 [\<lparr>setlist_entry_id = setlist_entry_id_counter st,
                                   entry_show_id = sid, entry_song_id = g, entry_position = pos,
                                   entry_notes = strip (song_notes row)\<rparr>],
                               setlist_keys := insert (sid, g, pos) (setlist_keys st),
                               setlist_entry_id_counter := setlist_entry_id_counter st + 1\<rparr>)))"
  using assms
  by (simp add: setlist_step_def reaches_position_step_def Let_def count_method_def
        split: sum.splits)

lemma setlist_step_not_reached:
  assumes "\<forall>sid g. \<not> reaches_position_step fm std reu tm idx row sid g"
  shows "\<exists>st'. setlist_step to_numeric fm std reu tm idx row st = Inr st' \<and>
           setlists st' = setlists st \<and> setlist_keys st' = setlist_keys st \<and>
           setlist_entry_id_counter st' = setlist_entry_id_counter st"
  using assms
  by (auto simp: setlist_step_def reaches_position_step_def Let_def count_method_def
        split: option.splits)

lemma parse_position_cases:
  "parse_position to_numeric v = Inl e \<longleftrightarrow> e = OverflowError \<and> to_numeric v = Infinity"
  "parse_position to_numeric v = Inr pos \<longleftrightarrow>
     to_numeric v \<noteq> Infinity \<and>
     pos = (case to_numeric v of NaN \<Rightarrow> 0 | Infinity \<Rightarrow> 0 | IntVal n \<Rightarrow> n
            | FloatVal q \<Rightarrow> if 0 \<le> q then \<lfloor>q\<rfloor> else \<lceil>q\<rceil>)"
  by (auto simp: parse_position_def split: numeric.splits)

lemma parse_position_sign:
  assumes "parse_position to_numeric v = Inr pos"
  shows "pos < 0 \<longleftrightarrow> \<not> nonneg_numeric (to_numeric v)"
proof (cases "to_numeric v")
  case (FloatVal q)
  have "\<lceil>q\<rceil> < 0 \<longleftrightarrow> q \<le> - 1" by (simp add: ceiling_less_iff)
  moreover have "0 \<le> q \<Longrightarrow> \<not> \<lfloor>q\<rfloor> < 0" by simp
  ultimately show ?thesis using assms FloatVal
    by (auto simp: parse_position_def nonneg_numeric_def split: if_splits)
qed (insert assms, auto simp: parse_position_def nonneg_numeric_def)

lemma setlist_step_links:
  assumes r: "reaches_position_step fm std reu tm idx row sid g"
    and p: "parse_position to_numeric (position row) = Inr pos"
  shows "\<exists>st'. setlist_step to_numeric fm std reu tm idx row st = Inr st' \<and>
     setlist_keys st' = insert (sid, g, pos) (setlist_keys st) \<and>
     setlists st' =
       (if (sid, g, pos) \<in> setlist_keys st then setlists st
        else setlists st @
               [\<lparr>setlist_entry_id = setlist_entry_id_counter st, entry_show_id = sid,
                 entry_song_id = g, entry_position = pos,
                 entry_notes = strip (song_notes row)\<rparr>])"
  by (simp add: setlist_step_reached [OF r] p Let_def count_method_def insert_absorb)

lemma setlist_step_overflow:
  assumes "reaches_position_step fm std reu tm idx row sid g"
    and "to_numeric (position row) = Infinity"
  shows "setlist_step to_numeric fm std reu tm idx row st = Inl OverflowError"
  by (simp add: setlist_step_reached [OF assms(1)] parse_position_def assms(2))

lemma setlist_step_error:
  assumes "setlist_step to_numeric fm std reu tm idx row st = Inl e"
  shows "e = OverflowError \<and> to_numeric (position row) = Infinity \<and>
         (\<exists>sid g. reaches_position_step fm std reu tm idx row sid g)"
proof (cases "\<exists>sid g. reaches_position_step fm std reu tm idx row sid g")
  case True
  then obtain sid g where r: "reaches_position_step fm std reu tm idx row sid g" by blast
  from assms have "parse_position to_numeric (position row) = Inl e"
    unfolding setlist_step_reached [OF r]
    by (cases "parse_position to_numeric (position row)") (simp_all add: Let_def split: if_splits)
  with True show ?thesis by (simp add: parse_position_cases)
next
  case False
  then have "\<forall>sid g. \<not> reaches_position_step fm std reu tm idx row sid g" by blast
  from setlist_step_not_reached [OF this, of to_numeric st] assms show ?thesis by auto
qed

lemma setlist_step_entry_source:
  assumes s: "setlist_step to_numeric fm std reu tm idx row st = Inr st'"
    and e: "e \<in> set (setlists st')"
  shows "e \<in> set (setlists st) \<or>
         (reaches_position_step fm std reu tm idx row (entry_show_id e) (entry_song_id e) \<and>
          parse_position to_numeric (position row) = Inr (entry_position e) \<and>
          entry_notes e = strip (song_notes row))"
proof (cases "\<exists>sid g. reaches_position_step fm std reu tm idx row sid g")
  case True
  then obtain sid g where r: "reaches_position_step fm std reu tm idx row sid g" by blast
  from s obtain pos where p: "parse_position to_numeric (position row) = Inr pos"
    unfolding setlist_step_reached [OF r]
    by (cases "parse_position to_numeric (position row)") simp_all
  from setlist_step_links [OF r p, of st] s have
    "setlists st' =
       (if (sid, g, pos) \<in> setlist_keys st then setlists st
        else setlists st @
               [\<lparr>setlist_entry_id = setlist_entry_id_counter st, entry_show_id = sid,
                 entry_song_id = g, entry_position = pos,
                 entry_notes = strip (song_notes row)\<rparr>])"
    by auto
  with e r p show ?thesis by (auto split: if_splits)
next
  case False
  then have "\<forall>sid g. \<not> reaches_position_step fm std reu tm idx row sid g" by blast
  from setlist_step_not_reached [OF this, of to_numeric st] s e show ?thesis by auto
qed

lemma setlist_step_keys_inv:
  assumes s: "setlist_step to_numeric fm std reu tm idx row st = Inr st'" and i: "keys_inv st"
  shows "keys_inv st' \<and> set (setlists st) \<subseteq> set (setlists st')"
proof (cases "\<exists>sid g. reaches_position_step fm std reu tm idx row sid g")
  case True
  then obtain sid g where r: "reaches_position_step fm std reu tm idx row sid g" by blast
  from s obtain pos where p: "parse_position to_numeric (position row) = Inr pos"
    unfolding setlist_step_reached [OF r]
    by (cases "parse_position to_numeric (position row)") simp_all
  from setlist_step_links [OF r p, of st] s have
    k: "setlist_keys st' = insert (sid, g, pos) (setlist_keys st)" and
    l: "setlists st' =
       (if (sid, g, pos) \<in> setlist_keys st then setlists st
        else setlists st @
               [\<lparr>setlist_entry_id = setlist_entry_id_counter st, entry_show_id = sid,
                 entry_song_id = g, entry_position = pos,
                 entry_notes = strip (song_notes row)\<rparr>])"
    by auto
  show ?thesis
  proof (cases "(sid, g, pos) \<in> setlist_keys st")
    case True
    with k l i show ?thesis by (auto simp: keys_inv_def)
  next
    case False
    with k l i show ?thesis by (auto simp: keys_inv_def entry_key_def)
  qed
next
  case False
  then have "\<forall>sid g. \<not> reaches_position_step fm std reu tm idx row sid g" by blast
  from setlist_step_not_reached [OF this, of to_numeric st] s i show ?thesis
    by (auto simp: keys_inv_def)
qed

lemma setlists_loop_entry_source:
  assumes "setlists_loop (setlist_step to_numeric fm std reu tm idx) rows st = Inr st'"
    and "e \<in> set (setlists st')"
  shows "e \<in> set (setlists st) \<or>
         (\<exists>row\<in>set rows.
            reaches_position_step fm std reu tm idx row (entry_show_id e) (entry_song_id e) \<and>
            parse_position to_numeric (position row) = Inr (entry_position e) \<and>
            entry_notes e = strip (song_notes row))"
  using assms
proof (induction rows arbitrary: st)
  case Nil
  then show ?case by simp
next
  case (Cons row rows)
  from Cons.prems(1) obtain st1 where
    s1: "setlist_step to_numeric fm std reu tm idx row st = Inr st1" and
    l: "setlists_loop (setlist_step to_numeric fm std reu tm idx) rows st1 = Inr st'"
    by (cases "setlist_step to_numeric fm std reu tm idx row st") simp_all
  from Cons.IH [OF l Cons.prems(2)] setlist_step_entry_source [OF s1] show ?case by auto
qed

lemma setlists_loop_keeps_rows:
  assumes "setlists_loop (setlist_step to_numeric fm std reu tm idx) rows st = Inr st'"
    and "keys_inv st"
  shows "keys_inv st' \<and> set (setlists st) \<subseteq> set (setlists st') \<and>
         (\<forall>row\<in>set rows. \<forall>sid g. reaches_position_step fm std reu tm idx row sid g \<longrightarrow>
            (\<exists>e\<in>set (setlists st'). entry_show_id e = sid \<and> entry_song_id e = g \<and>
               parse_position to_numeric (position row) = Inr (entry_position e)))"
  using assms
proof (induction rows arbitrary: st)
  case Nil
  then show ?case by simp
next
  case (Cons row rows)
  from Cons.prems(1) obtain st1 where
    s1: "setlist_step to_numeric fm std reu tm idx row st = Inr st1" and
    l: "setlists_loop (setlist_step to_numeric fm std reu tm idx) rows st1 = Inr st'"
    by (cases "setlist_step to_numeric fm std reu tm idx row st") simp_all
  from setlist_step_keys_inv [OF s1 Cons.prems(2)] have
    i1: "keys_inv st1" and m1: "set (setlists st) \<subseteq> set (setlists st1)" by blast+
  from Cons.IH [OF l i1] have
    i': "keys_inv st'" and m': "set (setlists st1) \<subseteq> set (setlists st')" and
    tl: "\<forall>row\<in>set rows. \<forall>sid g. reaches_position_step fm std reu tm idx row sid g \<longrightarrow>
            (\<exists>e\<in>set (setlists st'). entry_show_id e = sid \<and> entry_song_id e = g \<and>
               parse_position to_numeric (position row) = Inr (entry_position e))"
    by blast+
  have hd: "\<exists>e\<in>set (setlists st'). entry_show_id e = sid \<and> entry_song_id e = g \<and>
               parse_position to_numeric (position row) = Inr (entry_position e)"
    if r: "reaches_position_step fm std reu tm idx row sid g" for sid g
  proof -
    from s1 obtain pos where p: "parse_position to_numeric (position row) = Inr pos"
      unfolding setlist_step_reached [OF r]
      by (cases "parse_position to_numeric (position row)") simp_all
    from setlist_step_links [OF r p, of st] s1 have "(sid, g, pos) \<in> setlist_keys st1" by auto
    with i1 obtain e where "e \<in> set (setlists st1)" "entry_key e = (sid, g, pos)"
      by (auto simp: keys_inv_def)
    with m' p show ?thesis by (auto simp: entry_key_def)
  qed
  from i' m1 m' tl hd show ?case by auto
qed

lemma setlists_loop_overflow:
  assumes "row \<in> set rows" and "reaches_position_step fm std reu tm idx row sid g"
    and "to_numeric (position row) = Infinity"
  shows "setlists_loop (setlist_step to_numeric fm std reu tm idx) rows st = Inl OverflowError"
  using assms(1)
proof (induction rows arbitrary: st)
  case Nil
  then show ?case by simp
next
  case (Cons r rows)
  show ?case
  proof (cases "setlist_step to_numeric fm std reu tm idx r st")
    case (Inl e)
    with setlist_step_error [OF Inl] show ?thesis by simp
  next
    case (Inr st1)
    have "r \<noteq> row"
    proof
      assume "r = row"
      moreover from assms(2,3) have
        "setlist_step to_numeric fm std reu tm idx row st = Inl OverflowError"
        by (rule setlist_step_overflow)
      ultimately show False using Inr by simp
    qed
    with Cons.prems have "row \<in> set rows" by simp
    from Cons.IH [OF this] Inr show ?thesis by simp
  qed
qed

lemma setlists_loop_error:
  assumes "setlists_loop (setlist_step to_numeric fm std reu tm idx) rows st = Inl e"
  shows "e = OverflowError \<and>
         (\<exists>row\<in>set rows. to_numeric (position row) = Infinity \<and>
            (\<exists>sid g. reaches_position_step fm std reu tm idx row sid g))"
  using assms
proof (induction rows arbitrary: st)
  case Nil
  then show ?case by simp
next
  case (Cons r rows)
  show ?case
  proof (cases "setlist_step to_numeric fm std reu tm idx r st")
    case (Inl e')
    with Cons.prems have "e' = e" by simp
    with setlist_step_error [OF Inl] show ?thesis by auto
  next
    case (Inr st1)
    with Cons.prems have "setlists_loop (setlist_step to_numeric fm std reu tm idx) rows st1 = Inl e"
      by simp
    from Cons.IH [OF this] show ?thesis by auto
  qed
qed

lemma initial_keys_inv: "keys_inv initial_setlists_state"
  by (simp add: keys_inv_def initial_setlists_state_def)

lemma tables_result:
  assumes "create_shows_setlists_tables to_datetime to_numeric rows idx = Inr (shows_t, entries)"
  shows "shows_t = shows_data (resolve_shows to_datetime rows) \<and> shows_t \<noteq> [] \<and>
    (\<exists>st. setlists_loop
            (setlist_step to_numeric (original_show_key_to_id_map (resolve_shows to_datetime rows))
               (fst (find_bitusa_ids idx (None, None))) (snd (find_bitusa_ids idx (None, None)))
               (map (\<lambda>s. (show_id s, show_tour s)) (shows_data (resolve_shows to_datetime rows))) idx)
            rows initial_setlists_state = Inr st \<and>
          entries = setlists st)"
  using assms
  by (auto simp: create_shows_setlists_tables_def Let_def split: if_splits sum.splits)

lemma table_entry_source:
  assumes "create_shows_setlists_tables to_datetime to_numeric rows idx = Inr (shows_t, entries)"
    and "e \<in> set entries"
  shows "\<exists>row\<in>set rows.
           row_reaches to_datetime rows idx row (entry_show_id e) (entry_song_id e) \<and>
           parse_position to_numeric (position row) = Inr (entry_position e) \<and>
           entry_notes e = strip (song_notes row)"
proof -
  from tables_result [OF assms(1)] obtain st where
    l: "setlists_loop
            (setlist_step to_numeric (original_show_key_to_id_map (resolve_shows to_datetime rows))
               (fst (find_bitusa_ids idx (None, None))) (snd (find_bitusa_ids idx (None, None)))
               (map (\<lambda>s. (show_id s, show_tour s)) (shows_data (resolve_shows to_datetime rows))) idx)
            rows initial_setlists_state = Inr st" and
    en: "entries = setlists st"
    by blast
  from assms(2) en have "e \<in> set (setlists st)" by simp
  from setlists_loop_entry_source [OF l this] show ?thesis
    by (simp add: initial_setlists_state_def row_reaches_def)
qed

lemma table_keeps_rows:
  assumes "create_shows_setlists_tables to_datetime to_numeric rows idx = Inr (shows_t, entries)"
    and "row \<in> set rows" and "row_reaches to_datetime rows idx row sid g"
  shows "\<exists>e\<in>set entries. entry_show_id e = sid \<and> entry_song_id e = g \<and>
           parse_position to_numeric (position row) = Inr (entry_position e)"
proof -
  from tables_result [OF assms(1)] obtain st where
    l: "setlists_loop
            (setlist_step to_numeric (original_show_key_to_id_map (resolve_shows to_datetime rows))
               (fst (find_bitusa_ids idx (None, None))) (snd (find_bitusa_ids idx (None, None)))
               (map (\<lambda>s. (show_id s, show_tour s)) (shows_data (resolve_shows to_datetime rows))) idx)
            rows initial_setlists_state = Inr st" and
    en: "entries = setlists st"
    by blast
  from setlists_loop_keeps_rows [OF l initial_keys_inv] assms(2,3) show ?thesis
    unfolding en row_reaches_def by blast
qed

lemma linked_show_exists:
  assumes "map_of (original_show_key_to_id_map (resolve_shows to_datetime rows)) k = Some sid"
  shows "sid \<noteq> 0 \<and> (\<exists>s\<in>set (shows_data (resolve_shows to_datetime rows)). show_id s = sid \<and>
           map_of (map (\<lambda>s. (show_id s, show_tour s)) (shows_data (resolve_shows to_datetime rows))) sid =
             Some (show_tour s))"
proof -
  let ?rs = "resolve_shows to_datetime rows"
  from assms have "(k, sid) \<in> set (original_show_key_to_id_map ?rs)" by (rule map_of_SomeD)
  then have "sid \<in> set (map snd (original_show_key_to_id_map ?rs))" by force
  then have in_ids: "sid \<in> set (map show_id (shows_data ?rs))"
    unfolding resolve_shows_facts(2) .
  then have "sid \<in> set [1 ..< length (shows_data ?rs) + 1]"
    unfolding resolve_shows_facts(3) .
  then have nz: "sid \<noteq> 0" by (simp del: upt_Suc)
  from in_ids obtain s where s: "s \<in> set (shows_data ?rs)" "show_id s = sid" by auto
  have "distinct (map show_id (shows_data ?rs))"
    unfolding resolve_shows_facts(3) by (rule distinct_upt)
  then have d: "distinct (map fst (map (\<lambda>s. (show_id s, show_tour s)) (shows_data ?rs)))"
    by (simp add: comp_def)
  from s have "(sid, show_tour s) \<in> set (map (\<lambda>s. (show_id s, show_tour s)) (shows_data ?rs))"
    by force
  with d have "map_of (map (\<lambda>s. (show_id s, show_tour s)) (shows_data ?rs)) sid = Some (show_tour s)"
    by (rule map_of_is_SomeI)
  with nz s show ?thesis by blast
qed

lemma table_overflow:
  assumes "row \<in> set rows" and "row_reaches to_datetime rows idx row sid g"
    and "to_numeric (position row) = Infinity"
  shows "create_shows_setlists_tables to_datetime to_numeric rows idx = Inl OverflowError"
proof -
  from assms(2) have "map_of (original_show_key_to_id_map (resolve_shows to_datetime rows))
      (strip (date row), strip (venue row)) = Some sid"
    by (simp add: row_reaches_def reaches_position_step_def)
  from linked_show_exists [OF this] have ne: "shows_data (resolve_shows to_datetime rows) \<noteq> []"
    by auto
  from assms(2) have r: "reaches_position_step
       (original_show_key_to_id_map (resolve_shows to_datetime rows))
       (fst (find_bitusa_ids idx (None, None))) (snd (find_bitusa_ids idx (None, None)))
       (map (\<lambda>s. (show_id s, show_tour s)) (shows_data (resolve_shows to_datetime rows)))
       idx row sid g"
    by (simp add: row_reaches_def)
  from assms(1) r assms(3) have "setlists_loop
            (setlist_step to_numeric (original_show_key_to_id_map (resolve_shows to_datetime rows))
               (fst (find_bitusa_ids idx (None, None))) (snd (find_bitusa_ids idx (None, None)))
               (map (\<lambda>s. (show_id s, show_tour s)) (shows_data (resolve_shows to_datetime rows))) idx)
            rows initial_setlists_state = Inl OverflowError"
    by (rule setlists_loop_overflow)
  with ne show ?thesis
    by (simp add: create_shows_setlists_tables_def Let_def)
qed

lemma table_error:
  assumes "create_shows_setlists_tables to_datetime to_numeric rows idx = Inl e"
  shows "(e = KeyError \<and> shows_data (resolve_shows to_datetime rows) = []) \<or>
         (e = OverflowError \<and>
          (\<exists>row\<in>set rows. to_numeric (position row) = Infinity \<and>
             (\<exists>sid g. row_reaches to_datetime rows idx row sid g)))"
proof (cases "shows_data (resolve_shows to_datetime rows) = []")
  case True
  with assms show ?thesis by (simp add: create_shows_setlists_tables_def Let_def)
next
  case False
  with assms have "setlists_loop
            (setlist_step to_numeric (original_show_key_to_id_map (resolve_shows to_datetime rows))
               (fst (find_bitusa_ids idx (None, None))) (snd (find_bitusa_ids idx (None, None)))
               (map (\<lambda>s. (show_id s, show_tour s)) (shows_data (resolve_shows to_datetime rows))) idx)
            rows initial_setlists_state = Inl e"
    by (simp add: create_shows_setlists_tables_def Let_def split: sum.splits)
  from setlists_loop_error [OF this] show ?thesis by (simp add: row_reaches_def)
qed

text \<open>
  Claim C8, as the code has it. For a row that reaches the position step: when
  \<^verbatim>\<open>pd.to_numeric\<close> reads its position cell as an infinity, \<^verbatim>\<open>int\<close> raises
  \<^verbatim>\<open>OverflowError\<close>, which is not caught, and the step ends with this error. Otherwise
  the step returns: the position is 0 when the cell is no number, the integer itself when
  the cell is an integer, and the number truncated towards zero when it is a float; it is
  negative exactly when the cell reads as a number of -1 or less; the key of the row
  (show, song, position) is among the keys afterwards, and the entry of the row, with this
  position, is appended unless its key was there before. For the tables: every entry comes
  from a row of the input that reached the position step with the show and the song of the
  entry, has the position parsed from the cell of that row, and is negative exactly when
  that cell reads as a number of -1 or less; every row that reached the position step has
  an entry with its show, its song and its position; and when a row that reaches the
  position step has an infinite position, the function ends with \<^verbatim>\<open>OverflowError\<close>.
\<close>

theorem position_is_truncated_number_or_overflow:
  "(reaches_position_step fm std reu tm idx row sid g \<longrightarrow>
      (to_numeric (position row) = Infinity \<longrightarrow>
         setlist_step to_numeric fm std reu tm idx row st = Inl OverflowError) \<and>
      (to_numeric (position row) \<noteq> Infinity \<longrightarrow>
         (\<exists>st' pos.
            setlist_step to_numeric fm std reu tm idx row st = Inr st' \<and>
            (to_numeric (position row) = NaN \<longrightarrow> pos = 0) \<and>
            (\<forall>n. to_numeric (position row) = IntVal n \<longrightarrow> pos = n) \<and>
            (\<forall>q. to_numeric (position row) = FloatVal q \<longrightarrow>
               pos = (if 0 \<le> q then \<lfloor>q\<rfloor> else \<lceil>q\<rceil>)) \<and>
            (pos < 0 \<longleftrightarrow> \<not> nonneg_numeric (to_numeric (position row))) \<and>
            setlist_keys st' = insert (sid, g, pos) (setlist_keys st) \<and>
            setlists st' =
              (if (sid, g, pos) \<in> setlist_keys st then setlists st
               else setlists st @
                      [\<lparr>setlist_entry_id = setlist_entry_id_counter st, entry_show_id = sid,
                        entry_song_id = g, entry_position = pos,
                        entry_notes = strip (song_notes row)\<rparr>])))) \<and>
   (\<forall>shows_t entries.
      create_shows_setlists_tables to_datetime to_numeric rows idx = Inr (shows_t, entries) \<longrightarrow>
      (\<forall>e\<in>set entries.
         \<exists>r\<in>set rows.
            row_reaches to_datetime rows idx r (entry_show_id e) (entry_song_id e) \<and>
            parse_position to_numeric (position r) = Inr (entry_position e) \<and>
            entry_notes e = strip (song_notes r) \<and>
            (entry_position e < 0 \<longleftrightarrow> \<not> nonneg_numeric (to_numeric (position r)))) \<and>
      (\<forall>r\<in>set rows. \<forall>sid g.
         row_reaches to_datetime rows idx r sid g \<longrightarrow>
         to_numeric (position r) \<noteq> Infinity \<and>
         (\<exists>e\<in>set entries.
            entry_show_id e = sid \<and> entry_song_id e = g \<and>
            parse_position to_numeric (position r) = Inr (entry_position e)))) \<and>
   ((\<exists>r\<in>set rows. \<exists>sid g.
       row_reaches to_datetime rows idx r sid g \<and> to_numeric (position r) = Infinity) \<longrightarrow>
      create_shows_setlists_tables to_datetime to_numeric rows idx = Inl OverflowError)"
proof (intro conjI impI allI ballI)
  assume r: "reaches_position_step fm std reu tm idx row sid g"
    and "to_numeric (position row) = Infinity"
  then show "setlist_step to_numeric fm std reu tm idx row st = Inl OverflowError"
    by (rule setlist_step_overflow)
next
  assume r: "reaches_position_step fm std reu tm idx row sid g"
    and fin: "to_numeric (position row) \<noteq> Infinity"
  define pos where "pos = (case to_numeric (position row) of NaN \<Rightarrow> 0 | Infinity \<Rightarrow> 0
        | IntVal n \<Rightarrow> n | FloatVal q \<Rightarrow> if 0 \<le> q then \<lfloor>q\<rfloor> else \<lceil>q\<rceil>)"
  from fin have p: "parse_position to_numeric (position row) = Inr pos"
    unfolding parse_position_cases pos_def by simp
  from setlist_step_links [OF r p, of st] obtain st' where
    s: "setlist_step to_numeric fm std reu tm idx row st = Inr st'" and
    k: "setlist_keys st' = insert (sid, g, pos) (setlist_keys st)" and
    l: "setlists st' =
              (if (sid, g, pos) \<in> setlist_keys st then setlists st
               else setlists st @
                      [\<lparr>setlist_entry_id = setlist_entry_id_counter st, entry_show_id = sid,
                        entry_song_id = g, entry_position = pos,
                        entry_notes = strip (song_notes row)\<rparr>])"
    by blast
  have v: "to_numeric (position row) = NaN \<longrightarrow> pos = 0"
    "\<forall>n. to_numeric (position row) = IntVal n \<longrightarrow> pos = n"
    "\<forall>q. to_numeric (position row) = FloatVal q \<longrightarrow> pos = (if 0 \<le> q then \<lfloor>q\<rfloor> else \<lceil>q\<rceil>)"
    unfolding pos_def by simp_all
  note sg = parse_position_sign [OF p]
  show "\<exists>st' pos.
            setlist_step to_numeric fm std reu tm idx row st = Inr st' \<and>
            (to_numeric (position row) = NaN \<longrightarrow> pos = 0) \<and>
            (\<forall>n. to_numeric (position row) = IntVal n \<longrightarrow> pos = n) \<and>
            (\<forall>q. to_numeric (position row) = FloatVal q \<longrightarrow>
               pos = (if 0 \<le> q then \<lfloor>q\<rfloor> else \<lceil>q\<rceil>)) \<and>
            (pos < 0 \<longleftrightarrow> \<not> nonneg_numeric (to_numeric (position row))) \<and>
            setlist_keys st' = insert (sid, g, pos) (setlist_keys st) \<and>
            setlists st' =
              (if (sid, g, pos) \<in> setlist_keys st then setlists st
               else setlists st @
                      [\<lparr>setlist_entry_id = setlist_entry_id_counter st, entry_show_id = sid,
                        entry_song_id = g, entry_position = pos,
                        entry_notes = strip (song_notes row)\<rparr>])"
  proof (intro exI conjI)
    show "setlist_step to_numeric fm std reu tm idx row st = Inr st'" by (rule s)
    show "to_numeric (position row) = NaN \<longrightarrow> pos = 0" by (rule v(1))
    show "\<forall>n. to_numeric (position row) = IntVal n \<longrightarrow> pos = n" by (rule v(2))
    show "\<forall>q. to_numeric (position row) = FloatVal q \<longrightarrow>
               pos = (if 0 \<le> q then \<lfloor>q\<rfloor> else \<lceil>q\<rceil>)" by (rule v(3))
    show "pos < 0 \<longleftrightarrow> \<not> nonneg_numeric (to_numeric (position row))" by (rule sg)
    show "setlist_keys st' = insert (sid, g, pos) (setlist_keys st)" by (rule k)
    show "setlists st' =
              (if (sid, g, pos) \<in> setlist_keys st then setlists st
               else setlists st @
                      [\<lparr>setlist_entry_id = setlist_entry_id_counter st, entry_show_id = sid,
                        entry_song_id = g, entry_position = pos,
                        entry_notes = strip (song_notes row)\<rparr>])" by (rule l)
  qed
next
  fix shows_t entries e
  assume res: "create_shows_setlists_tables to_datetime to_numeric rows idx = Inr (shows_t, entries)"
    and e: "e \<in> set entries"
  from table_entry_source [OF res e] obtain r where
    r: "r \<in> set rows" "row_reaches to_datetime rows idx r (entry_show_id e) (entry_song_id e)"
      "parse_position to_numeric (position r) = Inr (entry_position e)"
      "entry_notes e = strip (song_notes r)"
    by blast
  from parse_position_sign [OF r(3)] r show
    "\<exists>r\<in>set rows.
            row_reaches to_datetime rows idx r (entry_show_id e) (entry_song_id e) \<and>
            parse_position to_numeric (position r) = Inr (entry_position e) \<and>
            entry_notes e = strip (song_notes r) \<and>
            (entry_position e < 0 \<longleftrightarrow> \<not> nonneg_numeric (to_numeric (position r)))"
    by blast
next
  fix shows_t entries r sid g
  assume res: "create_shows_setlists_tables to_datetime to_numeric rows idx = Inr (shows_t, entries)"
    and r: "r \<in> set rows" "row_reaches to_datetime rows idx r sid g"
  show "to_numeric (position r) \<noteq> Infinity"
  proof
    assume "to_numeric (position r) = Infinity"
    with r have "create_shows_setlists_tables to_datetime to_numeric rows idx = Inl OverflowError"
      by (rule table_overflow)
    with res show False by simp
  qed
  from res r show "\<exists>e\<in>set entries.
            entry_show_id e = sid \<and> entry_song_id e = g \<and>
            parse_position to_numeric (position r) = Inr (entry_position e)"
    by (rule table_keeps_rows)
next
  assume "\<exists>r\<in>set rows. \<exists>sid g.
       row_reaches to_datetime rows idx r sid g \<and> to_numeric (position r) = Infinity"
  then obtain r sid g where "r \<in> set rows" "row_reaches to_datetime rows idx r sid g"
    "to_numeric (position r) = Infinity" by blast
  then show "create_shows_setlists_tables to_datetime to_numeric rows idx = Inl OverflowError"
    by (rule table_overflow)
qed

lemma negative_position_tables:
  "create_shows_setlists_tables to_datetime_mdy to_numeric_literal negative_position_rows
       [(1, [''thunder'', ''road''])] =
     Inr ([\<lparr>show_id = 1, show_date = Some ''1975-08-15'', show_tour = ''1975 Tour'',
            show_venue = ''The Bottom Line'', show_city = ''Unknown City'', state_name = None,
            state_code = None, country_name = None, country_code = None, show_notes = None\<rparr>],
          [\<lparr>setlist_entry_id = 1, entry_show_id = 1, entry_song_id = 1, entry_position = - 3,
            entry_notes = []\<rparr>,
           \<lparr>setlist_entry_id = 2, entry_show_id = 1, entry_song_id = 1, entry_position = 0,
            entry_notes = []\<rparr>])"
  by code_simp

text \<open>
  C8 fails for a negative cell: the position \<^verbatim>\<open>-3\<close> is a number, no default is taken,
  and the entry is emitted with the position -3.
\<close>

theorem negative_position_counterexample:
  "position (negative_position_rows ! 0) = ''-3'' \<and>
   to_numeric_literal ''-3'' = IntVal (- 3) \<and>
   create_shows_setlists_tables to_datetime_mdy to_numeric_literal negative_position_rows
       [(1, [''thunder'', ''road''])] =
     Inr ([\<lparr>show_id = 1, show_date = Some ''1975-08-15'', show_tour = ''1975 Tour'',
            show_venue = ''The Bottom Line'', show_city = ''Unknown City'', state_name = None,
            state_code = None, country_name = None, country_code = None, show_notes = None\<rparr>],
          [\<lparr>setlist_entry_id = 1, entry_show_id = 1, entry_song_id = 1, entry_position = - 3,
            entry_notes = []\<rparr>,
           \<lparr>setlist_entry_id = 2, entry_show_id = 1, entry_song_id = 1, entry_position = 0,
            entry_notes = []\<rparr>]) \<and>
   entry_position \<lparr>setlist_entry_id = 1, entry_show_id = 1, entry_song_id = 1, entry_position = - 3,
            entry_notes = []\<rparr> < 0"
  by code_simp

lemma position_examples:
  "negative_position_rows ! 0 \<in> set negative_position_rows"
  "row_reaches to_datetime_mdy negative_position_rows [(1, [''thunder'', ''road''])]
     (negative_position_rows ! 0) 1 1"
  "parse_position to_numeric_literal (position (negative_position_rows ! 0)) = Inr (- 3)"
  "infinite_position_rows ! 0 \<in> set infinite_position_rows"
  "row_reaches to_datetime_mdy infinite_position_rows [(1, [''thunder'', ''road''])]
     (infinite_position_rows ! 0) 1 1"
  "to_numeric_inf (position (infinite_position_rows ! 0)) = Infinity"
  by code_simp+

theorem position_is_truncated_number_or_overflow_witness:
  "row_reaches to_datetime_mdy negative_position_rows [(1, [''thunder'', ''road''])]
     (negative_position_rows ! 0) 1 1 \<and>
   (\<exists>e\<in>set [\<lparr>setlist_entry_id = 1, entry_show_id = 1, entry_song_id = 1, entry_position = - 3,
                entry_notes = []\<rparr>,
              \<lparr>setlist_entry_id = 2, entry_show_id = 1, entry_song_id = 1, entry_position = 0,
                entry_notes = []\<rparr>].
      entry_show_id e = 1 \<and> entry_song_id e = 1 \<and> Inr (- 3) = Inr (entry_position e) \<and>
      entry_position e < 0) \<and>
   row_reaches to_datetime_mdy infinite_position_rows [(1, [''thunder'', ''road''])]
     (infinite_position_rows ! 0) 1 1 \<and>
   to_numeric_inf (position (infinite_position_rows ! 0)) = Infinity \<and>
   create_shows_setlists_tables to_datetime_mdy to_numeric_inf infinite_position_rows
     [(1, [''thunder'', ''road''])] = Inl OverflowError"
proof -
  note f = position_examples
  let ?idx = "[(1 :: nat, [''thunder'', ''road''])]"
  let ?entries = "[\<lparr>setlist_entry_id = 1, entry_show_id = 1, entry_song_id = 1, entry_position = - 3,
                entry_notes = []\<rparr>,
              \<lparr>setlist_entry_id = 2, entry_show_id = 1, entry_song_id = 1, entry_position = 0,
                entry_notes = []\<rparr>]"
  note th1 = position_is_truncated_number_or_overflow
    [where to_datetime = to_datetime_mdy and to_numeric = to_numeric_literal and
       rows = negative_position_rows and idx = ?idx]
  note th2 = position_is_truncated_number_or_overflow
    [where to_datetime = to_datetime_mdy and to_numeric = to_numeric_inf and
       rows = infinite_position_rows and idx = ?idx]
  from th1 negative_position_tables f(1,2) have
    "\<exists>e\<in>set ?entries. entry_show_id e = 1 \<and> entry_song_id e = 1 \<and>
       parse_position to_numeric_literal (position (negative_position_rows ! 0)) =
         Inr (entry_position e)"
    by blast
  then have a: "\<exists>e\<in>set ?entries. entry_show_id e = 1 \<and> entry_song_id e = 1 \<and>
       Inr (- 3) = Inr (entry_position e) \<and> entry_position e < 0"
    unfolding f(3) by auto
  from f(4,5,6) have "\<exists>r\<in>set infinite_position_rows. \<exists>sid g.
       row_reaches to_datetime_mdy infinite_position_rows ?idx r sid g \<and>
       to_numeric_inf (position r) = Infinity" by blast
  with th2 have b: "create_shows_setlists_tables to_datetime_mdy to_numeric_inf
      infinite_position_rows ?idx = Inl OverflowError" by blast
  from a b f(2,5,6) show ?thesis by blast
qed

section \<open>The contextual check for Born In The USA\<close>

lemma bitusa_words:
  "standard_bitusa_words = [''born'', ''in'', ''the'', ''usa'']"
  "reunion_bitusa_words = [''born'', ''in'', ''the'', ''usa'', ''acoustic'']"
  by code_simp+


lemma find_bitusa_ids_fst:
  "fst (find_bitusa_ids m (a, b)) = None \<longleftrightarrow> a = None \<and> standard_bitusa_words \<notin> snd ` set m"
proof (induction m arbitrary: a b)
  case Nil
  show ?case by simp
next
  case (Cons e m)
  obtain i w where e: "e = (i, w)" by (cases e)
  show ?case
    by (cases "w = standard_bitusa_words"; cases "w = reunion_bitusa_words")
       (auto simp: e Cons.IH)
qed


lemma find_bitusa_ids_fst_entry:
  "fst (find_bitusa_ids m (a, b)) = Some s \<longleftrightarrow>
     (if standard_bitusa_words \<in> snd ` set m
      then (\<exists>us vs. m = us @ (s, standard_bitusa_words) # vs \<and> standard_bitusa_words \<notin> snd ` set vs)
      else a = Some s)"
proof (induction m arbitrary: a b)
  case Nil
  show ?case by simp
next
  case (Cons e m)
  obtain i w where e: "e = (i, w)" by (cases e)
  show ?case
  proof (cases "standard_bitusa_words \<in> snd ` set m")
    case True
    then have "fst (find_bitusa_ids (e # m) (a, b)) = Some s \<longleftrightarrow>
        (\<exists>us vs. m = us @ (s, standard_bitusa_words) # vs \<and> standard_bitusa_words \<notin> snd ` set vs)"
      using e by (simp add: Cons.IH)
    also have "\<dots> \<longleftrightarrow> (\<exists>us vs. e # m = us @ (s, standard_bitusa_words) # vs \<and>
        standard_bitusa_words \<notin> snd ` set vs)"
    proof
      assume "\<exists>us vs. m = us @ (s, standard_bitusa_words) # vs \<and> standard_bitusa_words \<notin> snd ` set vs"
      then obtain us vs where "m = us @ (s, standard_bitusa_words) # vs"
        "standard_bitusa_words \<notin> snd ` set vs" by blast
      then have "e # m = (e # us) @ (s, standard_bitusa_words) # vs \<and>
        standard_bitusa_words \<notin> snd ` set vs" by simp
      then show "\<exists>us vs. e # m = us @ (s, standard_bitusa_words) # vs \<and>
        standard_bitusa_words \<notin> snd ` set vs" by blast
    next
      assume "\<exists>us vs. e # m = us @ (s, standard_bitusa_words) # vs \<and>
        standard_bitusa_words \<notin> snd ` set vs"
      then obtain us vs where d: "e # m = us @ (s, standard_bitusa_words) # vs"
        "standard_bitusa_words \<notin> snd ` set vs" by blast
      show "\<exists>us vs. m = us @ (s, standard_bitusa_words) # vs \<and> standard_bitusa_words \<notin> snd ` set vs"
      proof (cases us)
        case Nil
        with d have "m = vs" by simp
        with True d(2) show ?thesis by simp
      next
        case (Cons u us')
        with d have "m = us' @ (s, standard_bitusa_words) # vs" by simp
        with d(2) show ?thesis by blast
      qed
    qed
    finally show ?thesis using True by simp
  next
    case False
    show ?thesis
    proof (cases "w = standard_bitusa_words")
      case True
      with False e have "fst (find_bitusa_ids (e # m) (a, b)) = Some s \<longleftrightarrow> i = s"
        by (simp add: Cons.IH)
      also have "\<dots> \<longleftrightarrow> (\<exists>us vs. e # m = us @ (s, standard_bitusa_words) # vs \<and>
        standard_bitusa_words \<notin> snd ` set vs)"
      proof
        assume "i = s"
        with e True False have "e # m = [] @ (s, standard_bitusa_words) # m \<and>
          standard_bitusa_words \<notin> snd ` set m" by simp
        then show "\<exists>us vs. e # m = us @ (s, standard_bitusa_words) # vs \<and>
          standard_bitusa_words \<notin> snd ` set vs" by blast
      next
        assume "\<exists>us vs. e # m = us @ (s, standard_bitusa_words) # vs \<and>
          standard_bitusa_words \<notin> snd ` set vs"
        then obtain us vs where d: "e # m = us @ (s, standard_bitusa_words) # vs" by blast
        show "i = s"
        proof (cases us)
          case Nil
          with d e show ?thesis by simp
        next
          case (Cons u us')
          with d have "m = us' @ (s, standard_bitusa_words) # vs" by simp
          with False show ?thesis by force
        qed
      qed
      finally show ?thesis using True e by simp
    next
      case nw: False
      with False e have "standard_bitusa_words \<notin> snd ` set (e # m)" by auto
      moreover from nw False e have "fst (find_bitusa_ids (e # m) (a, b)) = Some s \<longleftrightarrow> a = Some s"
        by (simp add: Cons.IH)
      ultimately show ?thesis by simp
    qed
  qed
qed

lemma find_bitusa_ids_standard:
  "fst (find_bitusa_ids m (None, None)) = None \<longleftrightarrow> standard_bitusa_words \<notin> snd ` set m"
  by (simp add: find_bitusa_ids_fst)


lemma find_bitusa_ids_standard_entry:
  assumes "fst (find_bitusa_ids m (None, None)) = Some s"
  shows "(s, standard_bitusa_words) \<in> set m"
proof -
  from assms have "standard_bitusa_words \<in> snd ` set m"
    using find_bitusa_ids_standard [of m] by auto
  with assms obtain us vs where "m = us @ (s, standard_bitusa_words) # vs"
    unfolding find_bitusa_ids_fst_entry by auto
  then show ?thesis by simp
qed





lemma select_song_standard_only:
  "select_song (Some s) None tm idx sid standard_bitusa_words =
     (Some s, ''Contextual (Standard BITUSA)'')"
  by (simp add: select_song_def Let_def)





section \<open>The matcher on the matching map of the catalog builder\<close>

text \<open>
  The matching map of the catalog builder has no empty word list and is read in ascending
  order of song id: on it the candidates of the matcher are all the entries whose words
  are an ordered subsequence of the query, and the first longest candidate has the
  smallest song id among the longest.
\<close>

lemma builder_index_wellformed:
  assumes "create_final_songs_table set_iter S L = Inr (songs, idx)"
  shows "(\<forall>e\<in>set idx. snd e \<noteq> []) \<and> sorted_wrt (<) (map fst idx)"
proof -
  note sh = catalog_shape [OF assms]
  have "[] \<notin> set (session_keys S @ cover_keys S L)"
    by (auto simp: session_keys_def cover_keys_def drop_duplicates_def ddf_set_id)
  then have "[] \<notin> set (map snd idx)" unfolding sh(1) .
  then have "\<forall>e\<in>set idx. snd e \<noteq> []" by (metis image_eqI set_map)
  moreover have "sorted_wrt (<) (map fst idx)" unfolding sh(2) by (rule sorted_wrt_upt)
  ultimately show ?thesis by blast
qed

lemma builder_candidates:
  assumes "create_final_songs_table set_iter S L = Inr (songs, idx)" and "e \<in> set idx"
  shows "candidate q e \<longleftrightarrow> subseq (snd e) q"
  using builder_index_wellformed [OF assms(1)] assms(2) by (cases e) (auto simp: candidate_def)

text \<open>
  Claim C1. The matcher is called with the matching map of the catalog builder (line 274).
  On this map it returns no match exactly when no entry has a word list that is an ordered
  subsequence of the query, and so for the empty query. When it returns a song id, the id
  is that of an entry whose word list is an ordered subsequence of the query and is
  longest among all such entries; every such entry that is read before it is strictly
  shorter, so among the longest the first in the order of the map wins; and this is the
  smallest song id among the longest.
\<close>

theorem matcher_returns_first_longest_entry:
  assumes res: "create_final_songs_table set_iter S L = Inr (songs, idx)"
  shows "(find_match_by_sequence q idx = None \<longleftrightarrow> \<not> (\<exists>e\<in>set idx. subseq (snd e) q)) \<and>
         (\<forall>i. find_match_by_sequence q idx = Some i \<longrightarrow>
            (\<exists>us ws vs. idx = us @ (i, ws) # vs \<and> subseq ws q \<and>
               (\<forall>e\<in>set idx. subseq (snd e) q \<longrightarrow> length (snd e) \<le> length ws) \<and>
               (\<forall>e\<in>set us. subseq (snd e) q \<longrightarrow> length (snd e) < length ws) \<and>
               (\<forall>e\<in>set idx. subseq (snd e) q \<and> length (snd e) = length ws \<longrightarrow> i \<le> fst e))) \<and>
         find_match_by_sequence [] idx = None"
proof (intro conjI allI impI)
  note c = builder_candidates [OF res]
  show n: "find_match_by_sequence q idx = None \<longleftrightarrow> \<not> (\<exists>e\<in>set idx. subseq (snd e) q)"
    unfolding fm_None using c by blast
  show "find_match_by_sequence [] idx = None"
    by (simp add: find_match_by_sequence_def)
  fix i
  assume "find_match_by_sequence q idx = Some i"
  from fm_Some [OF this] obtain us ws vs where
    dec: "idx = us @ (i, ws) # vs" and cw: "candidate q (i, ws)" and
    le: "\<forall>e\<in>set idx. candidate q e \<longrightarrow> length (snd e) \<le> length ws" and
    lt: "\<forall>e\<in>set us. candidate q e \<longrightarrow> length (snd e) < length ws"
    by blast
  from cw have sw: "subseq ws q" by (simp add: candidate_def)
  from le c have le': "\<forall>e\<in>set idx. subseq (snd e) q \<longrightarrow> length (snd e) \<le> length ws" by blast
  have us: "set us \<subseteq> set idx" unfolding dec by auto
  with lt c have lt': "\<forall>e\<in>set us. subseq (snd e) q \<longrightarrow> length (snd e) < length ws" by blast
  have srt: "sorted_wrt (<) (map fst idx)"
    using builder_index_wellformed [OF res] by blast
  have least: "i \<le> fst e"
    if e: "e \<in> set idx" "subseq (snd e) q" "length (snd e) = length ws" for e
  proof -
    from e lt' have "e \<notin> set us" by auto
    with e(1) have "e = (i, ws) \<or> e \<in> set vs" unfolding dec by auto
    then show ?thesis
    proof
      assume "e = (i, ws)"
      then show ?thesis by simp
    next
      assume "e \<in> set vs"
      then have "i < fst e"
        using srt unfolding dec by (cases e) (auto simp: sorted_wrt_append)
      then show ?thesis by simp
    qed
  qed
  from dec sw le' lt' least show
    "\<exists>us ws vs. idx = us @ (i, ws) # vs \<and> subseq ws q \<and>
       (\<forall>e\<in>set idx. subseq (snd e) q \<longrightarrow> length (snd e) \<le> length ws) \<and>
       (\<forall>e\<in>set us. subseq (snd e) q \<longrightarrow> length (snd e) < length ws) \<and>
       (\<forall>e\<in>set idx. subseq (snd e) q \<and> length (snd e) = length ws \<longrightarrow> i \<le> fst e)"
    by blast
qed

theorem matcher_returns_first_longest_entry_witness:
  "create_final_songs_table (\<lambda>g. g) example_sessions example_setlist =
     Inr ([\<lparr>title = ''Thunder Road'', album = ''Born To Run'', is_outtake = 0, song_id = 1\<rparr>,
           \<lparr>title = ''B'', album = ''Cover'', is_outtake = 0, song_id = 2\<rparr>,
           \<lparr>title = ''A'', album = ''Cover'', is_outtake = 0, song_id = 3\<rparr>],
          [(1, [''thunder'', ''road'']), (2, [''b'']), (3, [''a''])]) \<and>
   find_match_by_sequence [''b'', ''thunder'', ''a'', ''road'']
     [(1, [''thunder'', ''road'']), (2, [''b'']), (3, [''a''])] = Some 1 \<and>
   (\<exists>ws. (1, ws) \<in> set [(1 :: nat, [''thunder'', ''road'']), (2, [''b'']), (3, [''a''])] \<and>
      subseq ws [''b'', ''thunder'', ''a'', ''road''] \<and> length [''b''] \<le> length ws) \<and>
   find_match_by_sequence [''c'']
     [(1, [''thunder'', ''road'']), (2, [''b'']), (3, [''a''])] = None \<and>
   \<not> (\<exists>e\<in>set [(1 :: nat, [''thunder'', ''road'']), (2, [''b'']), (3, [''a''])]. subseq (snd e) [''c''])"
proof -
  let ?idx = "[(1 :: nat, [''thunder'', ''road'']), (2, [''b'']), (3, [''a''])]"
  let ?q = "[''b'', ''thunder'', ''a'', ''road'']"
  note th = matcher_returns_first_longest_entry [OF example_catalog]
  have r: "find_match_by_sequence ?q ?idx = Some 1"
    by (simp add: find_match_by_sequence_def)
  from th [of ?q] r obtain us ws vs where
    dec: "?idx = us @ (1, ws) # vs" and sw: "subseq ws ?q" and
    le: "\<forall>e\<in>set ?idx. subseq (snd e) ?q \<longrightarrow> length (snd e) \<le> length ws"
    by blast
  from dec have m: "(1, ws) \<in> set ?idx" by (metis in_set_conv_decomp)
  have "(2, [''b'']) \<in> set ?idx" "subseq (snd (2 :: nat, [''b''])) ?q" by simp_all
  with le have l: "length (snd (2 :: nat, [''b''])) \<le> length ws" by blast
  have n: "find_match_by_sequence [''c''] ?idx = None"
    by (simp add: find_match_by_sequence_def)
  with th [of "[''c'']"] have "\<not> (\<exists>e\<in>set ?idx. subseq (snd e) [''c''])" by blast
  with example_catalog r m sw l n show ?thesis by auto
qed

text \<open>
  When the word lists of the matching map are pairwise distinct, a query that is the word
  list of an entry is matched to that entry. So the row that the contextual check routes
  to the standard id when the alternate id is missing gets the id the sequence matcher
  would give it; the two differ in the label only.
\<close>

lemma exact_entry_is_matched:
  assumes d: "distinct (map snd idx)" and e: "(s, q) \<in> set idx" and q: "q \<noteq> []"
  shows "find_match_by_sequence q idx = Some s"
proof -
  have c: "candidate q (s, q)" using q by (simp add: candidate_def)
  with e have "find_match_by_sequence q idx \<noteq> None" unfolding fm_None by blast
  then obtain i where r: "find_match_by_sequence q idx = Some i" by auto
  from fm_Some [OF r] obtain us ws vs where
    dec: "idx = us @ (i, ws) # vs" and cw: "candidate q (i, ws)" and
    le: "\<forall>e\<in>set idx. candidate q e \<longrightarrow> length (snd e) \<le> length ws"
    by blast
  from le e c have "length q \<le> length ws" by force
  moreover from cw have sw: "subseq ws q" by (simp add: candidate_def)
  then have "length ws \<le> length q" by (rule list_emb_length)
  ultimately have "ws = q" using sw by (simp add: subseq_same_length)
  with dec have "(i, q) \<in> set idx" by simp
  with d e have "i = s" by (metis distinct_map inj_onD snd_conv fst_conv)
  with r show ?thesis by simp
qed

lemma standard_only_routing_agrees_with_matcher:
  assumes "distinct (map snd idx)" and "fst (find_bitusa_ids idx (None, None)) = Some s"
  shows "fst (select_song (Some s) None tm idx sid standard_bitusa_words) =
         fst (sequence_match standard_bitusa_words idx)"
proof -
  from assms(2) have "(s, standard_bitusa_words) \<in> set idx"
    by (rule find_bitusa_ids_standard_entry)
  moreover have "standard_bitusa_words \<noteq> []" by (simp add: bitusa_words)
  ultimately have "find_match_by_sequence standard_bitusa_words idx = Some s"
    using assms(1) by (intro exact_entry_is_matched)
  then show ?thesis by (simp add: select_song_standard_only sequence_match_def)
qed

end
